theory Spec2Isabelle
  imports Main
begin

section \<open>Strings of the JavaScript runtime\<close>

text \<open>
  A JavaScript string is a sequence of UTF-16 code units. The model uses \<open>string\<close>, one
  \<open>char\<close> per code unit, so it covers the strings whose code units are all below 256.
  \<open>js_space\<close> is the class \<open>\s\<close> of regular expressions, which is also what
  \<open>String.prototype.trim\<close> strips (white space and line terminators): tab, line feed,
  vertical tab, form feed, carriage return, space and no-break space in this range.
  \<open>js_line_terminator\<close> is what the regular expression atom \<open>.\<close> refuses.
\<close>

definition js_space :: "char \<Rightarrow> bool" where
  "js_space c = (c = CHR 0x09 \<or> c = CHR 0x0A \<or> c = CHR 0x0B \<or> c = CHR 0x0C \<or> c = CHR 0x0D
     \<or> c = CHR 0x20 \<or> c = CHR 0xA0)"

definition js_line_terminator :: "char \<Rightarrow> bool" where
  "js_line_terminator c = (c = CHR 0x0A \<or> c = CHR 0x0D)"

section \<open>Regular expressions with backtracking\<close>

text \<open>
  The constructs the two patterns of the source use. A matcher started in a state (the
  capture so far, the rest of the input) returns every state in which it can stop, in the
  order in which a backtracking engine tries them: the head of the list is the match that
  JavaScript reports. Quantifiers are greedy, alternatives are tried left to right.
\<close>

datatype rx =
    Lit string
  | Cls "char \<Rightarrow> bool"
  | Seq rx rx
  | Alt rx rx
  | Opt rx
  | Star "char \<Rightarrow> bool"
  | Plus "char \<Rightarrow> bool"
  | Rep nat "char \<Rightarrow> bool"
  | Cap rx

type_synonym mstate = "string option \<times> string"

primrec lit_rest :: "string \<Rightarrow> string \<Rightarrow> string option" where
  "lit_rest [] s = Some s"
| "lit_rest (x # xs) s =
     (case s of [] \<Rightarrow> None | y # ys \<Rightarrow> if x = y then lit_rest xs ys else None)"

primrec star_rests :: "(char \<Rightarrow> bool) \<Rightarrow> string \<Rightarrow> string list" where
  "star_rests p [] = [[]]"
| "star_rests p (x # t) = (if p x then star_rests p t else []) @ [x # t]"

definition plus_rests :: "(char \<Rightarrow> bool) \<Rightarrow> string \<Rightarrow> string list" where
  "plus_rests p s = (case s of [] \<Rightarrow> [] | x # t \<Rightarrow> if p x then star_rests p t else [])"

fun run :: "rx \<Rightarrow> mstate \<Rightarrow> mstate list" where
  "run (Lit l) (c, s) = (case lit_rest l s of None \<Rightarrow> [] | Some r \<Rightarrow> [(c, r)])"
| "run (Cls p) (c, s) = (case s of [] \<Rightarrow> [] | x # t \<Rightarrow> if p x then [(c, t)] else [])"
| "run (Seq a b) st = concat (map (run b) (run a st))"
| "run (Alt a b) st = run a st @ run b st"
| "run (Opt a) st = run a st @ [st]"
| "run (Star p) (c, s) = map (Pair c) (star_rests p s)"
| "run (Plus p) (c, s) = map (Pair c) (plus_rests p s)"
| "run (Rep n p) (c, s) =
     (if n \<le> length s \<and> list_all p (take n s) then [(c, drop n s)] else [])"
| "run (Cap a) (c, s) =
     map (\<lambda>(c', r). (Some (take (length s - length r) s), r)) (run a (c, s))"

text \<open>
  \<open>String.prototype.match\<close> with a pattern that has no \<open>g\<close> flag: the pattern is tried at
  every start position from the left, the empty rest included, and the first position
  with a match wins. The result is the capture of that match, \<open>None\<close> when no position
  matches (JavaScript's \<open>null\<close>).
\<close>

fun exec_from :: "rx \<Rightarrow> string \<Rightarrow> string option option" where
  "exec_from r [] = (case run r (None, []) of [] \<Rightarrow> None | (c, _) # _ \<Rightarrow> Some c)"
| "exec_from r (x # t) =
     (case run r (None, x # t) of [] \<Rightarrow> exec_from r t | (c, _) # _ \<Rightarrow> Some c)"

text \<open>\<open>RegExp.prototype.test\<close> for a pattern anchored with \<open>^\<close>: only position 0 is tried.\<close>

definition test_anchored :: "rx \<Rightarrow> string \<Rightarrow> bool" where
  "test_anchored r s = (run r (None, s) \<noteq> [])"

section \<open>The identifier extractor\<close>

text \<open>
  The character classes of the pattern of \<open>extractVideoId\<close>:
  \<open>.\<close>, \<open>[^\/]\<close>, \<open>[?&]\<close> and \<open>[^"&?\/\s]\<close>.
\<close>

definition dot :: "char \<Rightarrow> bool" where
  "dot c = (\<not> js_line_terminator c)"

definition not_slash :: "char \<Rightarrow> bool" where
  "not_slash c = (c \<noteq> CHR ''/'')"

definition qmark_or_amp :: "char \<Rightarrow> bool" where
  "qmark_or_amp c = (c = CHR ''?'' \<or> c = CHR ''&'')"

definition id_cls :: "char \<Rightarrow> bool" where
  "id_cls c = (\<not> (c = CHR 0x22 \<or> c = CHR ''&'' \<or> c = CHR ''?'' \<or> c = CHR ''/'' \<or> js_space c))"

text \<open>
  \<^verbatim>\<open>/(?:youtube\.com\/(?:[^\/]+\/.+\/|(?:v|e(?:mbed)?)\/|.*[?&]v=)|youtu\.be\/)([^"&?\/\s]{11})/\<close>
\<close>

definition id_prefix_rx :: rx where
  "id_prefix_rx =
     Alt (Seq (Lit ''youtube.com/'')
            (Alt (Seq (Plus not_slash) (Seq (Lit ''/'') (Seq (Plus dot) (Lit ''/''))))
            (Alt (Seq (Alt (Lit ''v'') (Seq (Lit ''e'') (Opt (Lit ''mbed'')))) (Lit ''/''))
                 (Seq (Star dot) (Seq (Cls qmark_or_amp) (Lit ''v=''))))))
         (Lit ''youtu.be/'')"

definition video_id_rx :: rx where
  "video_id_rx = Seq id_prefix_rx (Cap (Rep 11 id_cls))"

text \<open>
  \<^verbatim>\<open>const match = url.match(regex); return match ? match[1] : null;\<close>
  The group takes part in every match of the pattern, so \<open>match[1]\<close> is a string whenever
  \<open>match\<close> is not \<open>null\<close>.
\<close>

definition extractVideoId :: "string \<Rightarrow> string option" where
  "extractVideoId url = (case exec_from video_id_rx url of None \<Rightarrow> None | Some c \<Rightarrow> c)"

section \<open>String operations of the runtime\<close>

text \<open>
  \<open>startsWith\<close>, \<open>endsWith\<close>, \<open>includes\<close>, \<open>trim\<close>, \<open>split\<close> on a one-character
  separator (\<^verbatim>\<open>'a\nb\n'.split('\n')\<close> is \<^verbatim>\<open>['a', 'b', '']\<close>: the result is never
  the empty list, so the first branch of the \<open>case\<close> below is not reached) and
  the first element of \<open>split\<close> on a non-empty separator, which is the text before the
  first occurrence of the separator (the whole string when there is none).
\<close>

definition starts_with :: "string \<Rightarrow> string \<Rightarrow> bool" where
  "starts_with l s = (lit_rest l s \<noteq> None)"

definition ends_with :: "string \<Rightarrow> string \<Rightarrow> bool" where
  "ends_with l s = starts_with (rev l) (rev s)"

primrec js_includes :: "string \<Rightarrow> string \<Rightarrow> bool" where
  "js_includes sep [] = (sep = [])"
| "js_includes sep (x # t) = (starts_with sep (x # t) \<or> js_includes sep t)"

primrec split_first :: "string \<Rightarrow> string \<Rightarrow> string" where
  "split_first sep [] = []"
| "split_first sep (x # t) = (if starts_with sep (x # t) then [] else x # split_first sep t)"

primrec split_on :: "char \<Rightarrow> string \<Rightarrow> string list" where
  "split_on d [] = [[]]"
| "split_on d (x # t) =
     (case split_on d t of
        [] \<Rightarrow> [[x]]
      | l # ls \<Rightarrow> if x = d then [] # l # ls else (x # l) # ls)"

definition trim :: "string \<Rightarrow> string" where
  "trim s = rev (dropWhile js_space (rev (dropWhile js_space s)))"

primrec join_with :: "string \<Rightarrow> string list \<Rightarrow> string" where
  "join_with sep [] = []"
| "join_with sep (x # xs) = (if xs = [] then x else x @ sep @ join_with sep xs)"

text \<open>
  \<open>Number.prototype.toString\<close> on an integer: its decimal digits, with a minus sign
  when negative. \<open>padStart(2, '0')\<close> fills up to two characters from the left.
\<close>

fun digits :: "nat \<Rightarrow> string" where
  "digits n = (if n < 10 then [''0123456789'' ! n]
               else digits (n div 10) @ [''0123456789'' ! (n mod 10)])"

declare digits.simps [simp del]

definition number_to_string :: "int \<Rightarrow> string" where
  "number_to_string i = (if i < 0 then ''-'' @ digits (nat (- i)) else digits (nat i))"

definition padStart2 :: "string \<Rightarrow> string" where
  "padStart2 s = replicate (2 - length s) (CHR ''0'') @ s"

text \<open>
  A number of the runtime is an IEEE double. The model of \<open>formatTimestamp\<close> covers the
  safe integers, from \<open>-(2^53 - 1)\<close> to \<open>2^53 - 1\<close>. A double holds each of them
  exactly. On them the arithmetic of \<open>formatTimestamp\<close> is that of the integers: a
  quotient by 1000 is below \<open>2^44\<close> in size, so rounding it to a double moves it by less
  than \<open>2^-10\<close>, which is less than the \<open>1/1000\<close> that separates a quotient that is
  not whole from the nearest whole number, and \<open>Math.floor\<close> of the rounded quotient is
  \<open>div\<close>; the quotients by 3600 and by 60 are smaller still; the remainder \<open>%\<close> is
  exact, truncates towards zero and has the sign of the dividend. Numbers outside this
  range, and numbers that are not whole, are outside the model.
\<close>

typedef safe_integer = "{i::int. - 9007199254740991 \<le> i \<and> i \<le> 9007199254740991}"
  by (rule exI[of _ 0]) simp

definition js_rem :: "int \<Rightarrow> int \<Rightarrow> int" where
  "js_rem a b = (if 0 \<le> a then a mod b else - ((- a) mod b))"

section \<open>The event-JSON parser\<close>

text \<open>
  A transcript entry \<^verbatim>\<open>{ timestamp, text }\<close>; the field \<open>text\<close> is called \<open>caption\<close>
  here. A caption document is decoded JSON typed as the code reads it: \<open>events\<close> is a
  list (\<open>None\<close> when the document or the field is missing), an event may carry
  \<open>tStartMs\<close>, a safe integer, and \<open>segs\<close>, a list of segments, each with an optional string
  \<open>utf8\<close>. On documents of this type no operation of \<open>parseTranscriptData\<close> throws, so
  its \<open>catch\<close> branch is not reached.
\<close>

record entry =
  timestamp :: string
  caption :: string

record seg =
  utf8 :: "string option"

record caption_event =
  tStartMs :: "safe_integer option"
  segs :: "seg list option"

definition formatTimestamp :: "safe_integer \<Rightarrow> string" where
  "formatTimestamp startTimeMs =
     (let totalSeconds = Rep_safe_integer startTimeMs div 1000;
          hours = totalSeconds div 3600;
          minutes = js_rem totalSeconds 3600 div 60;
          seconds = js_rem totalSeconds 60
      in if hours > 0
         then number_to_string hours @ '':'' @ padStart2 (number_to_string minutes) @ '':''
                @ padStart2 (number_to_string seconds)
         else number_to_string minutes @ '':'' @ padStart2 (number_to_string seconds))"

text \<open>
  The body of the loop: \<^verbatim>\<open>if (event.segs) { ... if (text) transcript.push(...) }\<close>.
  An array is truthy even when empty; \<^verbatim>\<open>event.tStartMs || 0\<close> and \<^verbatim>\<open>seg.utf8 || ''\<close>
  replace a missing field (and the falsy \<open>0\<close> and \<open>''\<close>, by themselves).
\<close>

definition event_step :: "entry list \<Rightarrow> caption_event \<Rightarrow> entry list" where
  "event_step transcript ev =
     (case segs ev of
        None \<Rightarrow> transcript
      | Some ss \<Rightarrow>
          (let startTime = (case tStartMs ev of None \<Rightarrow> Abs_safe_integer 0 | Some t \<Rightarrow> t);
               txt = trim (concat (map (\<lambda>sg. case utf8 sg of None \<Rightarrow> [] | Some u \<Rightarrow> u) ss))
           in if txt \<noteq> []
              then transcript @ [\<lparr>timestamp = formatTimestamp startTime, caption = txt\<rparr>]
              else transcript))"

definition parseTranscriptData :: "caption_event list option \<Rightarrow> entry list" where
  "parseTranscriptData transcriptData =
     (let events = (case transcriptData of None \<Rightarrow> [] | Some es \<Rightarrow> es)
      in foldl event_step [] events)"

section \<open>The cue-text parser\<close>

record vtt_state =
  transcript :: "entry list"
  currentText :: string
  currentTimestamp :: string

text \<open>The flush: an entry is pushed when both the text and the timestamp are non-empty.\<close>

definition flush :: "vtt_state \<Rightarrow> entry list" where
  "flush st =
     (if currentText st \<noteq> [] \<and> currentTimestamp st \<noteq> []
      then transcript st @ [\<lparr>timestamp = currentTimestamp st, caption = trim (currentText st)\<rparr>]
      else transcript st)"

text \<open>The body of the \<open>for\<close> loop of \<open>parseVTT\<close>, on the line \<open>lines[i]\<close>.\<close>

definition vtt_line :: "vtt_state \<Rightarrow> string \<Rightarrow> vtt_state" where
  "vtt_line st raw =
     (let line = trim raw
      in if line = ''WEBVTT'' \<or> line = [] \<or> starts_with ''NOTE'' line then st
         else if js_includes ''-->'' line
         then \<lparr>transcript = flush st, currentText = [],
                currentTimestamp = trim (split_first ''-->'' line)\<rparr>
         else st\<lparr>currentText := currentText st @ line @ '' ''\<rparr>)"

definition parseVTT :: "string \<Rightarrow> entry list" where
  "parseVTT vttContent =
     (let lines = split_on (CHR 0x0A) vttContent
      in flush (foldl vtt_line \<lparr>transcript = [], currentText = [], currentTimestamp = []\<rparr> lines))"

section \<open>The track selector\<close>

record track =
  languageCode :: "string option"
  kind :: "string option"
  baseUrl :: string

definition findEnglishTrack :: "track list \<Rightarrow> track option" where
  "findEnglishTrack captionTracks =
     (case find (\<lambda>t. languageCode t = Some ''en'' \<and> kind t \<noteq> Some ''asr'') captionTracks of
        Some t \<Rightarrow> Some t
      | None \<Rightarrow>
         (case find (\<lambda>t. languageCode t = Some ''en'' \<and> kind t = Some ''asr'') captionTracks of
            Some t \<Rightarrow> Some t
          | None \<Rightarrow>
              find (\<lambda>t. case languageCode t of None \<Rightarrow> False | Some l \<Rightarrow> starts_with ''en'' l)
                captionTracks))"

section \<open>Requests, responses and decoded JSON\<close>

text \<open>
  A decoded JSON value, with integers for numbers and an association list, of distinct
  keys, for an object. Numbers with a fraction or an exponent are outside the model; no
  test of the source tells them from other numbers that are not zero.
  \<open>js_truthy\<close> is JavaScript's truthiness, \<open>to_string\<close> the conversion \<open>ToString\<close> that
  \<open>RegExp.prototype.test\<close> applies to its argument (an array joins the conversions of
  its elements with commas, \<open>null\<close> counting as empty), \<open>get_prop\<close> the read of a property
  that destructuring \<^verbatim>\<open>const { url } = v\<close> makes: it throws on \<open>null\<close>, finds nothing on
  a primitive value or an array, and looks the key up in an object.
\<close>

datatype json =
    JNull
  | JBool bool
  | JNum int
  | JStr string
  | JArr "json list"
  | JObj "(string \<times> json) list"

fun js_truthy :: "json \<Rightarrow> bool" where
  "js_truthy JNull = False"
| "js_truthy (JBool b) = b"
| "js_truthy (JNum n) = (n \<noteq> 0)"
| "js_truthy (JStr s) = (s \<noteq> [])"
| "js_truthy (JArr xs) = True"
| "js_truthy (JObj kvs) = True"

fun to_string :: "json \<Rightarrow> string" where
  "to_string JNull = ''null''"
| "to_string (JBool b) = (if b then ''true'' else ''false'')"
| "to_string (JNum n) = number_to_string n"
| "to_string (JStr s) = s"
| "to_string (JArr xs) =
     join_with '','' (map (\<lambda>x. case x of JNull \<Rightarrow> [] | _ \<Rightarrow> to_string x) xs)"
| "to_string (JObj kvs) = ''[object Object]''"

text \<open>
  The message of a thrown error: a text the source writes, the message of an error the
  runtime itself throws (a \<open>SyntaxError\<close> of \<open>JSON.parse\<close>, a \<open>TypeError\<close>, a file system
  error), whose wording belongs to the runtime, or a text of the source in front of
  another message (\<^verbatim>\<open>`Failed to extract transcript: ${error.message}`\<close>).
\<close>

datatype message =
    Msg string
  | RuntimeMsg
  | Prefixed string message

fun get_prop :: "string \<Rightarrow> json \<Rightarrow> message + json option" where
  "get_prop k JNull = Inl RuntimeMsg"
| "get_prop k (JObj kvs) = Inr (map_of kvs k)"
| "get_prop k v = Inr None"

text \<open>
  The request as the handler reads it: \<open>event.httpMethod\<close> and \<open>event.body\<close>, the body
  being absent (\<open>null\<close> or \<open>undefined\<close>) or a text. \<open>JSON.parse\<close> belongs to the runtime: it
  is a parameter of the model, a partial map from texts to decoded values, \<open>None\<close> where
  it throws its \<open>SyntaxError\<close>. On an absent body \<open>JSON.parse\<close> throws (\<open>undefined\<close>) or
  returns \<open>null\<close>, on which the destructuring throws.
\<close>

record http_event =
  httpMethod :: string
  body :: "string option"

text \<open>
  The response. Its body is the value handed to \<open>JSON.stringify\<close>, or the empty text:
  \<^verbatim>\<open>{ error }\<close>, \<^verbatim>\<open>{ error, details }\<close> or \<^verbatim>\<open>{ success: true, transcript, url }\<close>.
  \<open>headers\<close> is \<open>None\<close> where the returned object has no such field.
\<close>

datatype response_body =
    EmptyBody
  | ErrorBody string
  | FailureBody string message
  | SuccessBody "entry list" json

record response =
  statusCode :: nat
  headers :: "(string \<times> string) list option"
  response_body :: response_body

definition cors_headers :: "(string \<times> string) list" where
  "cors_headers =
     [(''Access-Control-Allow-Origin'', ''*''),
      (''Access-Control-Allow-Headers'', ''Content-Type''),
      (''Access-Control-Allow-Methods'', ''POST, OPTIONS''),
      (''Content-Type'', ''application/json'')]"

text \<open>
  \<^verbatim>\<open>/^(https?:\/\/)?(www\.)?(youtube\.com|youtu\.be)\/.+/\<close>; only \<open>test\<close> is called on
  it, so its groups are plain groupings here.
\<close>

definition youtubeRegex :: rx where
  "youtubeRegex =
     Seq (Opt (Seq (Lit ''http'') (Seq (Opt (Lit ''s'')) (Lit ''://''))))
       (Seq (Opt (Lit ''www.''))
         (Seq (Alt (Lit ''youtube.com'') (Lit ''youtu.be''))
           (Seq (Lit ''/'') (Plus dot))))"

text \<open>
  \<^verbatim>\<open>const { url } = JSON.parse(event.body)\<close>: the thrown error, or the value of \<open>url\<close>
  (\<open>None\<close> for \<open>undefined\<close>).
\<close>

definition parse_url :: "(string \<Rightarrow> json option) \<Rightarrow> string option \<Rightarrow> message + json option" where
  "parse_url JSON_parse b =
     (case b of
        None \<Rightarrow> Inl RuntimeMsg
      | Some txt \<Rightarrow>
          (case JSON_parse txt of
             None \<Rightarrow> Inl RuntimeMsg
           | Some v \<Rightarrow> get_prop ''url'' v))"

definition failure_response :: "message \<Rightarrow> response" where
  "failure_response m =
     \<lparr>statusCode = 500, headers = Some cors_headers,
      response_body = FailureBody ''Failed to extract transcript'' m\<rparr>"

section \<open>Variant A: the metadata API\<close>

text \<open>
  The two network calls belong to the world: a call throws inside its promise before
  any request is made (\<open>new URL\<close> on an address it cannot read), fails in transport
  (with the transport's message), returns a body that is not JSON, or returns a decoded
  document.
  Of the player response the code reads the list at
  \<open>captions.playerCaptionsTracklistRenderer.captionTracks\<close> (\<open>None\<close> when the path is
  absent); of the caption document, its \<open>events\<close>.
\<close>

datatype 'a fetched =
    Threw
  | RequestFailed string
  | NotJson
  | Decoded 'a

definition getPlayerResponse ::
    "(string \<Rightarrow> track list option fetched) \<Rightarrow> string \<Rightarrow> message + track list option" where
  "getPlayerResponse post videoId =
     (case post videoId of
        Threw \<Rightarrow> Inl RuntimeMsg
      | RequestFailed m \<Rightarrow> Inl (Msg (''YouTube API request failed: '' @ m))
      | NotJson \<Rightarrow> Inl (Msg ''Failed to parse YouTube API response'')
      | Decoded r \<Rightarrow> Inr r)"

definition extractCaptionTracks :: "track list option \<Rightarrow> track list" where
  "extractCaptionTracks playerResponse = (case playerResponse of None \<Rightarrow> [] | Some ts \<Rightarrow> ts)"

definition downloadTranscript ::
    "(string \<Rightarrow> caption_event list option fetched) \<Rightarrow> string
       \<Rightarrow> message + caption_event list option" where
  "downloadTranscript get url =
     (case get (url @ ''&fmt=json3'') of
        Threw \<Rightarrow> Inl RuntimeMsg
      | RequestFailed m \<Rightarrow> Inl (Msg (''Transcript download failed: '' @ m))
      | NotJson \<Rightarrow> Inl (Msg ''Failed to parse transcript data'')
      | Decoded d \<Rightarrow> Inr d)"

text \<open>
  \<open>extractTranscript\<close> of variant A, before its \<open>catch\<close>. \<open>url.match\<close> exists on a string
  only: any other value throws a \<open>TypeError\<close>.
\<close>

definition extractTranscriptA_body ::
    "(string \<Rightarrow> track list option fetched) \<Rightarrow> (string \<Rightarrow> caption_event list option fetched)
       \<Rightarrow> json \<Rightarrow> message + entry list" where
  "extractTranscriptA_body post get url =
     (case url of
        JStr u \<Rightarrow>
          (case extractVideoId u of
             None \<Rightarrow> Inl (Msg ''Invalid YouTube URL - could not extract video ID'')
           | Some videoId \<Rightarrow>
               (case getPlayerResponse post videoId of
                  Inl m \<Rightarrow> Inl m
                | Inr playerResponse \<Rightarrow>
                    (let captionTracks = extractCaptionTracks playerResponse
                     in if captionTracks = []
                        then Inl (Msg ''No transcript/subtitles found for this video'')
                        else (case findEnglishTrack captionTracks of
                                None \<Rightarrow> Inl (Msg ''No English transcript found for this video'')
                              | Some englishTrack \<Rightarrow>
                                  (case downloadTranscript get (baseUrl englishTrack) of
                                     Inl m \<Rightarrow> Inl m
                                   | Inr transcriptData \<Rightarrow>
                                       Inr (parseTranscriptData transcriptData))))))
      | _ \<Rightarrow> Inl RuntimeMsg)"

definition extractTranscriptA ::
    "(string \<Rightarrow> track list option fetched) \<Rightarrow> (string \<Rightarrow> caption_event list option fetched)
       \<Rightarrow> json \<Rightarrow> message + entry list" where
  "extractTranscriptA post get url =
     (case extractTranscriptA_body post get url of
        Inl m \<Rightarrow> Inl (Prefixed ''Failed to extract transcript: '' m)
      | Inr t \<Rightarrow> Inr t)"

text \<open>\<open>exports.handler\<close> of variant A, in the order of the source.\<close>

definition handlerA ::
    "(string \<Rightarrow> json option) \<Rightarrow> (string \<Rightarrow> track list option fetched)
       \<Rightarrow> (string \<Rightarrow> caption_event list option fetched) \<Rightarrow> http_event \<Rightarrow> response" where
  "handlerA JSON_parse post get event =
     (if httpMethod event \<noteq> ''POST''
      then \<lparr>statusCode = 405, headers = None, response_body = ErrorBody ''Method not allowed''\<rparr>
      else if httpMethod event = ''OPTIONS''
      then \<lparr>statusCode = 200, headers = Some cors_headers, response_body = EmptyBody\<rparr>
      else (case parse_url JSON_parse (body event) of
              Inl m \<Rightarrow> failure_response m
            | Inr None \<Rightarrow>
                \<lparr>statusCode = 400, headers = Some cors_headers,
                 response_body = ErrorBody ''YouTube URL is required''\<rparr>
            | Inr (Some url) \<Rightarrow>
                if \<not> js_truthy url
                then \<lparr>statusCode = 400, headers = Some cors_headers,
                      response_body = ErrorBody ''YouTube URL is required''\<rparr>
                else if \<not> test_anchored youtubeRegex (to_string url)
                then \<lparr>statusCode = 400, headers = Some cors_headers,
                      response_body = ErrorBody ''Invalid YouTube URL''\<rparr>
                else (case extractTranscriptA post get url of
                        Inl m \<Rightarrow> failure_response m
                      | Inr t \<Rightarrow>
                          \<lparr>statusCode = 200, headers = Some cors_headers,
                           response_body = SuccessBody t url\<rparr>)))"

section \<open>Variant B: the external downloader\<close>

text \<open>
  The file system, as far as the handler touches it: a map from the path of a directory
  to its entries in listing order, an entry being a name and the content that
  \<open>readFileSync\<close> returns (\<open>None\<close> when the read throws). \<open>mkdirSync\<close> with
  \<open>recursive: true\<close> keeps a directory that exists; \<open>rmSync\<close> with \<open>recursive\<close> and
  \<open>force\<close> removes the directory and what it holds.
\<close>

type_synonym dir_entries = "(string \<times> string option) list"
type_synonym filesystem = "string \<Rightarrow> dir_entries option"

definition mkdirSync :: "string \<Rightarrow> filesystem \<Rightarrow> filesystem" where
  "mkdirSync d fs = fs(d \<mapsto> (case fs d of None \<Rightarrow> [] | Some es \<Rightarrow> es))"

definition rmSync :: "string \<Rightarrow> filesystem \<Rightarrow> filesystem" where
  "rmSync d fs = fs(d := None)"

text \<open>
  What the child process does belongs to the world: \<open>spawn\<close> throws at once, or the
  child emits \<open>error\<close> (it could not be started), or it closes with an exit code
  (\<open>None\<close> for \<open>null\<close>, a child ended by a signal), its error stream and the entries that
  the scratch directory holds by then.
\<close>

datatype proc =
    SpawnThrows
  | SpawnError string
  | Closed "int option" string dir_entries

definition ytdlp_args :: "string \<Rightarrow> json \<Rightarrow> json list" where
  "ytdlp_args tempDir url =
     [JStr ''--write-auto-sub'',
      JStr ''--sub-lang'', JStr ''en'',
      JStr ''--sub-format'', JStr ''vtt'',
      JStr ''--skip-download'',
      JStr ''--output'', JStr (tempDir @ ''/%(title)s.%(ext)s''),
      url]"

definition code_text :: "int option \<Rightarrow> string" where
  "code_text code = (case code of None \<Rightarrow> ''null'' | Some n \<Rightarrow> number_to_string n)"

text \<open>
  \<open>extractTranscript\<close> of variant B: the promise settles with the first \<open>reject\<close> or
  \<open>resolve\<close>. The result comes with the file system the child leaves behind.
\<close>

definition extractTranscriptB ::
    "(string \<Rightarrow> json list \<Rightarrow> proc) \<Rightarrow> json \<Rightarrow> string \<Rightarrow> filesystem
       \<Rightarrow> (message + entry list) \<times> filesystem" where
  "extractTranscriptB spawn url tempDir fs =
     (case spawn ''/home/manu/anaconda3/bin/yt-dlp'' (ytdlp_args tempDir url) of
        SpawnThrows \<Rightarrow> (Inl RuntimeMsg, fs)
      | SpawnError m \<Rightarrow> (Inl (Msg (''Failed to spawn yt-dlp: '' @ m)), fs)
      | Closed code stderr files \<Rightarrow>
          (let fs' = fs(tempDir \<mapsto> files)
           in if code \<noteq> Some 0
              then (Inl (Msg (''yt-dlp failed with code '' @ code_text code @ '': '' @ stderr)), fs')
              else (case find (\<lambda>file. ends_with ''.vtt'' (fst file)) files of
                      None \<Rightarrow>
                        (Inl (Msg ''No transcript file found. Video may not have subtitles.''), fs')
                    | Some vttFile \<Rightarrow>
                        (case map_of files (fst vttFile) of
                           Some (Some vttContent) \<Rightarrow> (Inr (parseVTT vttContent), fs')
                         | _ \<Rightarrow> (Inl (Prefixed ''Failed to process transcript: '' RuntimeMsg), fs')))))"

text \<open>
  \<open>exports.handler\<close> of variant B. \<open>now\<close> is the value of \<open>Date.now()\<close>. The handler
  returns its response and the file system it leaves.
\<close>

definition handlerB ::
    "(string \<Rightarrow> json option) \<Rightarrow> (string \<Rightarrow> json list \<Rightarrow> proc) \<Rightarrow> int \<Rightarrow> filesystem
       \<Rightarrow> http_event \<Rightarrow> response \<times> filesystem" where
  "handlerB JSON_parse spawn now fs event =
     (if httpMethod event \<noteq> ''POST''
      then (\<lparr>statusCode = 405, headers = None,
             response_body = ErrorBody ''Method not allowed''\<rparr>, fs)
      else if httpMethod event = ''OPTIONS''
      then (\<lparr>statusCode = 200, headers = Some cors_headers, response_body = EmptyBody\<rparr>, fs)
      else (case parse_url JSON_parse (body event) of
              Inl m \<Rightarrow> (failure_response m, fs)
            | Inr None \<Rightarrow>
                (\<lparr>statusCode = 400, headers = Some cors_headers,
                  response_body = ErrorBody ''YouTube URL is required''\<rparr>, fs)
            | Inr (Some url) \<Rightarrow>
                if \<not> js_truthy url
                then (\<lparr>statusCode = 400, headers = Some cors_headers,
                       response_body = ErrorBody ''YouTube URL is required''\<rparr>, fs)
                else if \<not> test_anchored youtubeRegex (to_string url)
                then (\<lparr>statusCode = 400, headers = Some cors_headers,
                       response_body = ErrorBody ''Invalid YouTube URL''\<rparr>, fs)
                else (let tempDir = ''/tmp/yt-'' @ number_to_string now;
                          fs1 = mkdirSync tempDir fs
                      in case extractTranscriptB spawn url tempDir fs1 of
                           (Inl m, fs2) \<Rightarrow> (failure_response m, fs2)
                         | (Inr t, fs2) \<Rightarrow>
                             (\<lparr>statusCode = 200, headers = Some cors_headers,
                               response_body = SuccessBody t url\<rparr>,
                              rmSync tempDir fs2))))"

section \<open>What a pattern accepts\<close>

text \<open>
  The strings a pattern matches as a whole, without regard to the order in which a
  backtracking matcher finds them.
\<close>

fun lang :: "rx \<Rightarrow> string set" where
  "lang (Lit l) = {l}"
| "lang (Cls p) = {[x] | x. p x}"
| "lang (Seq a b) = {u @ v | u v. u \<in> lang a \<and> v \<in> lang b}"
| "lang (Alt a b) = lang a \<union> lang b"
| "lang (Opt a) = insert [] (lang a)"
| "lang (Star p) = {w. list_all p w}"
| "lang (Plus p) = {w. w \<noteq> [] \<and> list_all p w}"
| "lang (Rep n p) = {w. length w = n \<and> list_all p w}"
| "lang (Cap a) = lang a"

text \<open>
  The same for the part of the pattern of \<open>extractVideoId\<close> in front of its group,
  written out: \<open>youtu.be/\<close>, or \<open>youtube.com/\<close> followed by two path segments
  \<open>a/b/\<close>, by \<open>v/\<close>, \<open>e/\<close> or \<open>embed/\<close>, or by any text on one line that ends
  in \<open>?v=\<close> or \<open>&v=\<close>.
\<close>

definition code_shape :: "string \<Rightarrow> bool" where
  "code_shape w =
     (w = ''youtu.be/''
      \<or> (\<exists>x. w = ''youtube.com/'' @ x
            \<and> ((\<exists>a b. x = a @ ''/'' @ b @ ''/'' \<and> a \<noteq> [] \<and> list_all not_slash a
                          \<and> b \<noteq> [] \<and> list_all dot b)
                \<or> (x = ''v/'' \<or> x = ''e/'' \<or> x = ''embed/'')
                \<or> (\<exists>a q. x = a @ [q] @ ''v='' \<and> list_all dot a \<and> qmark_or_amp q))))"

text \<open>
  \<open>flat r k\<close> is the pattern \<open>r\<close> followed by \<open>k\<close>, with every sequence nested to the
  right and every alternative distributed over what follows it.
\<close>

fun flat :: "rx \<Rightarrow> rx \<Rightarrow> rx" where
  "flat (Seq a b) k = flat a (flat b k)"
| "flat (Alt a b) k = Alt (flat a k) (flat b k)"
| "flat (Opt a) k = Alt (flat a k) k"
| "flat r k = Seq r k"

section \<open>The words of the specification\<close>

text \<open>
  The identifier alphabet the specification names, \<open>[A-Za-z0-9_-]\<close>.
\<close>

definition spec_id_char :: "char \<Rightarrow> bool" where
  "spec_id_char c =
     (c \<in> set (''ABCDEFGHIJKLMNOPQRSTUVWXYZ'' @ ''abcdefghijklmnopqrstuvwxyz''
                 @ ''0123456789'' @ ''_-''))"

text \<open>
  The URL shapes the specification names, \<open>watch?v=ID\<close>, \<open>/embed/ID\<close>, \<open>/v/ID\<close> and
  the short domain followed by \<open>ID\<close>, with \<open>ID\<close> of 11 characters of its alphabet: a
  string has one of these shapes when one of the four markers occurs in it, followed by
  such an \<open>ID\<close>.
\<close>

definition followed_by_id :: "string \<Rightarrow> string \<Rightarrow> bool" where
  "followed_by_id marker s =
     (case lit_rest marker s of
        None \<Rightarrow> False
      | Some r \<Rightarrow> 11 \<le> length r \<and> list_all spec_id_char (take 11 r))"

primrec somewhere :: "(string \<Rightarrow> bool) \<Rightarrow> string \<Rightarrow> bool" where
  "somewhere P [] = P []"
| "somewhere P (x # t) = (P (x # t) \<or> somewhere P t)"

definition spec_shape_url :: "string \<Rightarrow> bool" where
  "spec_shape_url url =
     somewhere (\<lambda>s. followed_by_id ''watch?v='' s \<or> followed_by_id ''/embed/'' s
                  \<or> followed_by_id ''/v/'' s \<or> followed_by_id ''youtu.be/'' s) url"

text \<open>
  The event-JSON parser in the words of the specification: an event is emitted when it
  has \<open>segs\<close> and its segment texts, a missing one counting as empty, concatenated and
  trimmed, are not empty; its start is \<open>tStartMs\<close>, 0 when absent. The timestamp:
  milliseconds floored to whole seconds, then \<open>H:MM:SS\<close> from 3600 seconds on and
  \<open>M:SS\<close> below, hours and the minutes of \<open>M:SS\<close> without padding, the minutes of
  \<open>H:MM:SS\<close> and the seconds as a number from 0 to 59, padded with a zero to two
  digits.
\<close>

definition seg_text :: "seg \<Rightarrow> string" where
  "seg_text sg = (case utf8 sg of None \<Rightarrow> [] | Some u \<Rightarrow> u)"

definition event_text :: "caption_event \<Rightarrow> string" where
  "event_text ev = (case segs ev of None \<Rightarrow> [] | Some ss \<Rightarrow> trim (concat (map seg_text ss)))"

definition event_start :: "caption_event \<Rightarrow> safe_integer" where
  "event_start ev = (case tStartMs ev of None \<Rightarrow> Abs_safe_integer 0 | Some t \<Rightarrow> t)"

definition spec_emits :: "caption_event \<Rightarrow> bool" where
  "spec_emits ev = (segs ev \<noteq> None \<and> event_text ev \<noteq> [])"



text \<open>
  A text has ink when one of its characters is not white space: it is neither empty nor
  made of white space only.
\<close>

definition has_ink :: "string \<Rightarrow> bool" where
  "has_ink s = (\<exists>c\<in>set s. \<not> js_space c)"

section \<open>Names for the tests of the source\<close>

text \<open>
  The two tests the handlers make on \<open>url\<close>, \<^verbatim>\<open>!url\<close> and
  \<^verbatim>\<open>!youtubeRegex.test(url)\<close>: \<open>url_rejected\<close> holds when one of them answers 400.
\<close>

definition url_rejected :: "json option \<Rightarrow> bool" where
  "url_rejected u =
     (case u of None \<Rightarrow> True
      | Some v \<Rightarrow> \<not> js_truthy v \<or> \<not> test_anchored youtubeRegex (to_string v))"

text \<open>The three predicates that \<open>findEnglishTrack\<close> hands to \<open>find\<close>, in its order.\<close>

definition manual_en :: "track \<Rightarrow> bool" where
  "manual_en t = (languageCode t = Some ''en'' \<and> kind t \<noteq> Some ''asr'')"

definition asr_en :: "track \<Rightarrow> bool" where
  "asr_en t = (languageCode t = Some ''en'' \<and> kind t = Some ''asr'')"

definition en_variant :: "track \<Rightarrow> bool" where
  "en_variant t = (case languageCode t of None \<Rightarrow> False | Some l \<Rightarrow> starts_with ''en'' l)"

text \<open>\<open>first_with P ts t\<close>: \<open>t\<close> is the first element of \<open>ts\<close> that satisfies \<open>P\<close>.\<close>

definition first_with :: "('a \<Rightarrow> bool) \<Rightarrow> 'a list \<Rightarrow> 'a \<Rightarrow> bool" where
  "first_with P ts t = (\<exists>pre post. ts = pre @ t # post \<and> P t \<and> (\<forall>y\<in>set pre. \<not> P y))"

text \<open>
  The tests of the loop of \<open>parseVTT\<close> on a line: skipped (the header text, an empty
  line, a line that starts with \<open>NOTE\<close>), or else a timing line (it contains \<open>-->\<close>);
  and the state the loop starts in.
\<close>

definition vtt_skipped :: "string \<Rightarrow> bool" where
  "vtt_skipped raw =
     (trim raw = ''WEBVTT'' \<or> trim raw = [] \<or> starts_with ''NOTE'' (trim raw))"

definition vtt_cue :: "string \<Rightarrow> bool" where
  "vtt_cue raw = (\<not> vtt_skipped raw \<and> js_includes ''-->'' (trim raw))"

definition vtt_init :: vtt_state where
  "vtt_init = \<lparr>transcript = [], currentText = [], currentTimestamp = []\<rparr>"

text \<open>
  The invariant of that loop: the pending text is empty or has ink, and every entry
  pushed so far has ink.
\<close>

definition vtt_inv :: "vtt_state \<Rightarrow> bool" where
  "vtt_inv st = ((currentText st = [] \<or> has_ink (currentText st))
      \<and> (\<forall>e\<in>set (transcript st). has_ink (caption e)))"

section \<open>Sample inputs\<close>

text \<open>
  A request body \<^verbatim>\<open>{"url":"https://youtu.be/dQw4w9WgXcQ"}\<close> and the part of
  \<open>JSON.parse\<close> that the examples need: it decodes this body, \<^verbatim>\<open>{}\<close> and
  \<^verbatim>\<open>null\<close>, and throws on every other text, \<^verbatim>\<open>{\<close> among them.
\<close>

abbreviation dq :: char where
  "dq \<equiv> CHR 0x22"

definition sample_body :: string where
  "sample_body =
     ''{'' @ [dq] @ ''url'' @ [dq] @ '':'' @ [dq] @ ''https://youtu.be/dQw4w9WgXcQ'' @ [dq] @ ''}''"

definition sample_parse :: "string \<Rightarrow> json option" where
  "sample_parse =
     [sample_body \<mapsto> JObj [(''url'', JStr ''https://youtu.be/dQw4w9WgXcQ'')],
      ''{}'' \<mapsto> JObj [],
      ''null'' \<mapsto> JNull]"

definition sample_asr :: track where
  "sample_asr =
     \<lparr>languageCode = Some ''en'', kind = Some ''asr'', baseUrl = ''https://example.org/asr''\<rparr>"

definition sample_manual :: track where
  "sample_manual =
     \<lparr>languageCode = Some ''en'', kind = None, baseUrl = ''https://example.org/manual''\<rparr>"

definition sample_gb :: track where
  "sample_gb =
     \<lparr>languageCode = Some ''en-GB'', kind = None, baseUrl = ''https://example.org/gb''\<rparr>"

definition sample_es :: track where
  "sample_es =
     \<lparr>languageCode = Some ''es'', kind = None, baseUrl = ''https://example.org/es''\<rparr>"

text \<open>
  The cue-text document of the specification's example, and a caption document with an
  event of two segments at 65000 ms, an event of white space only, an event without
  \<open>segs\<close> and an event whose only segment has no text.
\<close>

abbreviation nl :: char where
  "nl \<equiv> CHR 0x0A"

definition sample_vtt :: string where
  "sample_vtt = ''WEBVTT'' @ [nl, nl] @ ''00:00:01.000 --> 00:00:02.000'' @ [nl]
      @ ''hello'' @ [nl] @ ''world'' @ [nl]"

definition sample_events :: "caption_event list" where
  "sample_events =
     [\<lparr>tStartMs = Some (Abs_safe_integer 65000),
        segs = Some [\<lparr>utf8 = Some ''a''\<rparr>, \<lparr>utf8 = Some ''b''\<rparr>]\<rparr>,
      \<lparr>tStartMs = Some (Abs_safe_integer 70000), segs = Some [\<lparr>utf8 = Some ''  ''\<rparr>]\<rparr>,
      \<lparr>tStartMs = Some (Abs_safe_integer 80000), segs = None\<rparr>,
      \<lparr>tStartMs = None, segs = Some [\<lparr>utf8 = None\<rparr>]\<rparr>]"


definition sample_files :: dir_entries where
  "sample_files =
     [(''notes.txt'', Some ''x''), (''talk.en.vtt'', Some sample_vtt),
      (''talk.fr.vtt'', Some ''WEBVTT'')]"

definition sample_spawn :: "string \<Rightarrow> json list \<Rightarrow> proc" where
  "sample_spawn path args = Closed (Some 0) [] sample_files"

definition sample_spawn_nothing :: "string \<Rightarrow> json list \<Rightarrow> proc" where
  "sample_spawn_nothing path args = Closed (Some 0) [] [(''notes.txt'', Some ''x'')]"

section \<open>Facts about the matcher\<close>

lemma lit_rest_suffix: "lit_rest l s = Some r \<Longrightarrow> s = l @ r"
  by (induction l arbitrary: s) (auto split: list.splits if_splits)

lemma star_rests_suffix: "t \<in> set (star_rests p s) \<Longrightarrow> \<exists>w. s = w @ t"
proof (induction s)
  case Nil
  then show ?case by simp
next
  case (Cons x s)
  then show ?case
    by (auto split: if_splits)
qed

lemma plus_rests_suffix: "t \<in> set (plus_rests p s) \<Longrightarrow> \<exists>w. s = w @ t"
  unfolding plus_rests_def
  by (auto split: list.splits if_splits dest!: star_rests_suffix)

lemma run_suffix: "(c', t) \<in> set (run r (c, s)) \<Longrightarrow> \<exists>w. s = w @ t"
proof (induction r arbitrary: c s c' t)
  case (Lit l)
  then show ?case
    by (auto split: option.splits dest: lit_rest_suffix lit_rest_suffix[OF sym])
next
  case (Cls p)
  then show ?case by (auto split: list.splits if_splits)
next
  case (Seq a b)
  from Seq.prems obtain c1 t1 where
    m: "(c1, t1) \<in> set (run a (c, s))" "(c', t) \<in> set (run b (c1, t1))"
    by auto
  from Seq.IH(1)[OF m(1)] Seq.IH(2)[OF m(2)] show ?case by auto
next
  case (Alt a b)
  then show ?case by auto
next
  case (Opt a)
  then show ?case by auto
next
  case (Star p)
  then show ?case by (auto dest: star_rests_suffix)
next
  case (Plus p)
  then show ?case by (auto dest: plus_rests_suffix)
next
  case (Rep n p)
  then show ?case by (auto split: if_splits) (metis append_take_drop_id)
next
  case (Cap a)
  then show ?case by auto
qed

lemma run_video_id_rx:
  assumes "(c', t) \<in> set (run video_id_rx (c, s))"
  shows "\<exists>w v. c' = Some v \<and> s = w @ v @ t \<and> length v = 11 \<and> list_all id_cls v"
proof -
  from assms obtain c1 t1 where
    m: "(c1, t1) \<in> set (run id_prefix_rx (c, s))"
       "(c', t) \<in> set (run (Cap (Rep 11 id_cls)) (c1, t1))"
    unfolding video_id_rx_def by auto
  from run_suffix[OF m(1)] obtain w where w: "s = w @ t1" by blast
  from m(2) have "11 \<le> length t1" "list_all id_cls (take 11 t1)" "t = drop 11 t1"
      "c' = Some (take 11 t1)"
    by (auto split: if_splits)
  with w show ?thesis
    by (metis append_take_drop_id length_take min.absorb2)
qed

lemma exec_from_Some:
  "exec_from r u = Some c \<Longrightarrow>
     \<exists>pre s t more. u = pre @ s \<and> run r (None, s) = (c, t) # more \<and>
        (\<forall>k<length pre. run r (None, drop k u) = [])"
proof (induction u)
  case Nil
  then show ?case by (auto split: list.splits)
next
  case (Cons x u)
  show ?case
  proof (cases "run r (None, x # u)")
    case Nil
    with Cons.prems have "exec_from r u = Some c" by simp
    from Cons.IH[OF this] obtain pre s t more where
      h: "u = pre @ s" "run r (None, s) = (c, t) # more"
         "\<forall>k<length pre. run r (None, drop k u) = []"
      by blast
    have "\<forall>k<length (x # pre). run r (None, drop k (x # u)) = []"
    proof (intro allI impI)
      fix k assume "k < length (x # pre)"
      then show "run r (None, drop k (x # u)) = []"
        using Nil h(3) by (cases k) auto
    qed
    with h(1,2) show ?thesis
      by (metis append_Cons)
  next
    case (Cons st more)
    with Cons.prems have "run r (None, x # u) = (c, snd st) # more"
      by (cases st) auto
    then show ?thesis
      by (metis append_Nil list.size(3) not_less_zero)
  qed
qed

lemma exec_from_None:
  "exec_from r u = None \<longleftrightarrow> (\<forall>k\<le>length u. run r (None, drop k u) = [])"
proof (induction u)
  case Nil
  then show ?case by (auto split: list.splits)
next
  case (Cons x u)
  show ?case
  proof (cases "run r (None, x # u)")
    case Nil
    have "(\<forall>k\<le>length (x # u). run r (None, drop k (x # u)) = []) \<longleftrightarrow>
          (\<forall>k\<le>length u. run r (None, drop k u) = [])"
    proof
      assume a: "\<forall>k\<le>length (x # u). run r (None, drop k (x # u)) = []"
      show "\<forall>k\<le>length u. run r (None, drop k u) = []"
      proof (intro allI impI)
        fix k assume "k \<le> length u"
        then show "run r (None, drop k u) = []" using a[rule_format, of "Suc k"] by simp
      qed
    next
      assume a: "\<forall>k\<le>length u. run r (None, drop k u) = []"
      show "\<forall>k\<le>length (x # u). run r (None, drop k (x # u)) = []"
      proof (intro allI impI)
        fix k assume "k \<le> length (x # u)"
        then show "run r (None, drop k (x # u)) = []" using a Nil by (cases k) auto
      qed
    qed
    with Nil Cons.IH show ?thesis by simp
  next
    case (Cons st more)
    then have "exec_from r (x # u) \<noteq> None" by (cases st) auto
    moreover have "\<not> (\<forall>k\<le>length (x # u). run r (None, drop k (x # u)) = [])"
      using Cons by (metis drop0 le0 list.distinct(1))
    ultimately show ?thesis by blast
  qed
qed

lemma spec_id_char_id_cls: "spec_id_char c \<Longrightarrow> id_cls c"
  by (auto simp: spec_id_char_def id_cls_def js_space_def)

section \<open>The request handler and its methods\<close>

text \<open>
  C1. The claim: an \<open>OPTIONS\<close> request is answered with status 200, an empty body and the
  CORS headers, and 405 is kept for methods that are neither \<open>POST\<close> nor \<open>OPTIONS\<close>.
  What the code does: the test \<^verbatim>\<open>event.httpMethod !== 'POST'\<close> comes first in both
  variants, so an \<open>OPTIONS\<close> request is answered with 405, the body
  \<^verbatim>\<open>{ error: 'Method not allowed' }\<close> and no headers at all; the branch written for
  \<open>OPTIONS\<close> is never reached.
\<close>

theorem options_request_gets_405:
  "handlerA JSON_parse post get \<lparr>httpMethod = ''OPTIONS'', body = b\<rparr> =
     \<lparr>statusCode = 405, headers = None, response_body = ErrorBody ''Method not allowed''\<rparr>
   \<and> handlerB JSON_parse spawn now fs \<lparr>httpMethod = ''OPTIONS'', body = b\<rparr> =
     (\<lparr>statusCode = 405, headers = None, response_body = ErrorBody ''Method not allowed''\<rparr>, fs)"
  by (simp add: handlerA_def handlerB_def)

section \<open>The identifier extractor: what it returns\<close>

text \<open>
  C4, as the code has it. Every value that \<open>extractVideoId\<close> returns is a string of
  exactly 11 characters of the class \<open>[^"&?\/\s]\<close> of the pattern: none of them is a
  double quote, \<open>&\<close>, \<open>?\<close>, \<open>/\<close> or white space. It is the capture of the first match
  of the pattern: the match starts at the leftmost position of the input at which the
  pattern matches at all, and is the first one the backtracking finds there. The function
  is total on strings and has no state to change.
\<close>

theorem extractVideoId_result:
  assumes "extractVideoId url = Some v"
  shows "length v = 11 \<and> list_all id_cls v \<and>
     (\<exists>pre w post t more. url = pre @ w @ v @ post \<and>
         run video_id_rx (None, w @ v @ post) = (Some v, t) # more \<and>
         (\<forall>k<length pre. run video_id_rx (None, drop k url) = []))"
proof -
  from assms have e: "exec_from video_id_rx url = Some (Some v)"
    unfolding extractVideoId_def by (auto split: option.splits)
  from exec_from_Some[OF e] obtain pre s t more where
    h: "url = pre @ s" "run video_id_rx (None, s) = (Some v, t) # more"
       "\<forall>k<length pre. run video_id_rx (None, drop k url) = []"
    by blast
  from h(2) have "(Some v, t) \<in> set (run video_id_rx (None, s))" by simp
  from run_video_id_rx[OF this] obtain w where
    w: "s = w @ v @ t" "length v = 11" "list_all id_cls v" by auto
  with h show ?thesis by blast
qed

theorem extractVideoId_result_witness:
  "extractVideoId ''https://youtu.be/dQw4w9WgXcQ'' = Some ''dQw4w9WgXcQ''
   \<and> length ''dQw4w9WgXcQ'' = 11 \<and> list_all id_cls ''dQw4w9WgXcQ''
   \<and> (\<exists>pre w post t more. ''https://youtu.be/dQw4w9WgXcQ'' = pre @ w @ ''dQw4w9WgXcQ'' @ post \<and>
         run video_id_rx (None, w @ ''dQw4w9WgXcQ'' @ post) = (Some ''dQw4w9WgXcQ'', t) # more \<and>
         (\<forall>k<length pre. run video_id_rx (None, drop k ''https://youtu.be/dQw4w9WgXcQ'') = []))"
proof -
  have h: "extractVideoId ''https://youtu.be/dQw4w9WgXcQ'' = Some ''dQw4w9WgXcQ''"
    by code_simp
  from extractVideoId_result[OF h] h show ?thesis by blast
qed

text \<open>
  The claim as stated, with the alphabet \<open>[A-Za-z0-9_-]\<close>, fails: a full stop and a plus
  sign are returned as part of an identifier.
\<close>

theorem extractVideoId_alphabet_counterexample:
  "extractVideoId ''youtu.be/abc.def+ghi'' = Some ''abc.def+ghi''
   \<and> \<not> list_all spec_id_char ''abc.def+ghi''"
proof -
  have "extractVideoId ''youtu.be/abc.def+ghi'' = Some ''abc.def+ghi''"
    by code_simp
  moreover have "\<not> list_all spec_id_char ''abc.def+ghi''"
    by (simp add: spec_id_char_def)
  ultimately show ?thesis by blast
qed

section \<open>Invalid input\<close>


lemma handlerB_post:
  "httpMethod event = ''POST'' \<Longrightarrow>
   handlerB JSON_parse spawn now fs event =
     (case parse_url JSON_parse (body event) of
        Inl m \<Rightarrow> (failure_response m, fs)
      | Inr u \<Rightarrow>
          if url_rejected u
          then (\<lparr>statusCode = 400, headers = Some cors_headers,
                response_body = ErrorBody (if u = None \<or> \<not> js_truthy (the u)
                   then ''YouTube URL is required'' else ''Invalid YouTube URL'')\<rparr>, fs)
          else (case extractTranscriptB spawn (the u) (''/tmp/yt-'' @ number_to_string now)
                       (mkdirSync (''/tmp/yt-'' @ number_to_string now) fs) of
                  (Inl m, fs2) \<Rightarrow> (failure_response m, fs2)
                | (Inr t, fs2) \<Rightarrow> (\<lparr>statusCode = 200, headers = Some cors_headers,
                           response_body = SuccessBody t (the u)\<rparr>,
                           rmSync (''/tmp/yt-'' @ number_to_string now) fs2)))"
  by (auto simp: handlerB_def url_rejected_def Let_def split: sum.splits option.splits prod.splits)





section \<open>The scratch directory\<close>

lemma timestamp_text: "number_to_string 1700000000000 = ''1700000000000''"
  by (simp add: number_to_string_def digits.simps)

lemma sample_url_accepted: "test_anchored youtubeRegex ''https://youtu.be/dQw4w9WgXcQ''"
  by (simp add: test_anchored_def youtubeRegex_def plus_rests_def dot_def
      js_line_terminator_def)

text \<open>
  C3. The claim: the scratch directory is removed on every exit path. What the code
  does: \<open>rmSync\<close> stands after the \<open>await\<close>, on the path of success only; when the
  promise is rejected, control passes to the \<open>catch\<close> branch, which returns the 500
  without removing anything. Here the downloader exits with code 1: the response is the
  500 and the directory \<^verbatim>\<open>/tmp/yt-1700000000000\<close> is still there. The same request
  with a downloader that exits with code 0 and leaves a subtitle file is answered with
  200, and the directory is gone.
\<close>

theorem scratch_dir_left_behind:
  "fst (handlerB sample_parse (\<lambda>_ _. Closed (Some 1) ''ERROR'' []) 1700000000000 Map.empty
        \<lparr>httpMethod = ''POST'', body = Some sample_body\<rparr>)
     = failure_response (Msg ''yt-dlp failed with code 1: ERROR'')
   \<and> snd (handlerB sample_parse (\<lambda>_ _. Closed (Some 1) ''ERROR'' []) 1700000000000 Map.empty
        \<lparr>httpMethod = ''POST'', body = Some sample_body\<rparr>) ''/tmp/yt-1700000000000''
     = Some []
   \<and> statusCode (fst (handlerB sample_parse sample_spawn 1700000000000 Map.empty
        \<lparr>httpMethod = ''POST'', body = Some sample_body\<rparr>)) = 200
   \<and> snd (handlerB sample_parse sample_spawn 1700000000000 Map.empty
        \<lparr>httpMethod = ''POST'', body = Some sample_body\<rparr>) ''/tmp/yt-1700000000000''
     = None"
  by (simp add: handlerB_def parse_url_def sample_parse_def sample_body_def
      sample_url_accepted timestamp_text extractTranscriptB_def mkdirSync_def rmSync_def
      code_text_def number_to_string_def digits.simps sample_spawn_def sample_files_def
      ends_with_def starts_with_def)

section \<open>The track selector: its priorities\<close>

lemma findEnglishTrack_alt:
  "findEnglishTrack ts =
     (case find manual_en ts of Some t \<Rightarrow> Some t
      | None \<Rightarrow> (case find asr_en ts of Some t \<Rightarrow> Some t | None \<Rightarrow> find en_variant ts))"
  unfolding findEnglishTrack_def manual_en_def asr_en_def en_variant_def by (rule refl)

lemma find_first:
  "find P xs = Some x \<longleftrightarrow> (\<exists>pre post. xs = pre @ x # post \<and> P x \<and> (\<forall>y\<in>set pre. \<not> P y))"
proof (induction xs)
  case Nil
  then show ?case by simp
next
  case (Cons a xs)
  show ?case
  proof (cases "P a")
    case True
    have "(\<exists>pre post. a # xs = pre @ x # post \<and> P x \<and> (\<forall>y\<in>set pre. \<not> P y)) \<longleftrightarrow> a = x"
    proof
      assume "\<exists>pre post. a # xs = pre @ x # post \<and> P x \<and> (\<forall>y\<in>set pre. \<not> P y)"
      then obtain pre post where h: "a # xs = pre @ x # post" "\<forall>y\<in>set pre. \<not> P y"
        by blast
      show "a = x"
      proof (cases pre)
        case Nil
        with h show ?thesis by simp
      next
        case (Cons b pre')
        with h True show ?thesis by auto
      qed
    next
      assume "a = x"
      with True show "\<exists>pre post. a # xs = pre @ x # post \<and> P x \<and> (\<forall>y\<in>set pre. \<not> P y)"
        by (intro exI[of _ "[]"] exI[of _ xs]) simp
    qed
    with True show ?thesis by simp
  next
    case False
    have "(\<exists>pre post. a # xs = pre @ x # post \<and> P x \<and> (\<forall>y\<in>set pre. \<not> P y)) \<longleftrightarrow>
          (\<exists>pre post. xs = pre @ x # post \<and> P x \<and> (\<forall>y\<in>set pre. \<not> P y))"
    proof
      assume "\<exists>pre post. a # xs = pre @ x # post \<and> P x \<and> (\<forall>y\<in>set pre. \<not> P y)"
      then obtain pre post where
        h: "a # xs = pre @ x # post" "P x" "\<forall>y\<in>set pre. \<not> P y" by blast
      show "\<exists>pre post. xs = pre @ x # post \<and> P x \<and> (\<forall>y\<in>set pre. \<not> P y)"
      proof (cases pre)
        case Nil
        with h False show ?thesis by simp
      next
        case (Cons b pre')
        with h show ?thesis by auto
      qed
    next
      assume "\<exists>pre post. xs = pre @ x # post \<and> P x \<and> (\<forall>y\<in>set pre. \<not> P y)"
      then obtain pre post where
        h: "xs = pre @ x # post" "P x" "\<forall>y\<in>set pre. \<not> P y" by blast
      with False show "\<exists>pre post. a # xs = pre @ x # post \<and> P x \<and> (\<forall>y\<in>set pre. \<not> P y)"
        by (intro exI[of _ "a # pre"] exI[of _ post]) simp
    qed
    with False Cons.IH show ?thesis by simp
  qed
qed

lemma find_None: "find P xs = None \<longleftrightarrow> (\<forall>y\<in>set xs. \<not> P y)"
  by (auto simp: find_None_iff)

lemma find_exists: "\<exists>y\<in>set xs. P y \<Longrightarrow> \<exists>x. find P xs = Some x"
  by (cases "find P xs") (auto simp: find_None_iff)

lemma find_first_with: "find P ts = Some t \<Longrightarrow> first_with P ts t"
  unfolding first_with_def by (simp add: find_first)

text \<open>
  C6. For every list of tracks: when a track with \<open>languageCode\<close> \<open>en\<close> and a \<open>kind\<close>
  other than \<open>asr\<close> exists, the selector returns the first such track; otherwise, when
  a track with \<open>en\<close> and \<open>asr\<close> exists, the first of those; otherwise, when a track
  whose \<open>languageCode\<close> starts with \<open>en\<close> exists, the first of those; otherwise
  nothing. Of a manual and an automatic English track, in either order, the manual one is
  returned.
\<close>

theorem findEnglishTrack_priority:
  "((\<exists>t\<in>set ts. manual_en t) \<longrightarrow>
       (\<exists>t. findEnglishTrack ts = Some t \<and> first_with manual_en ts t))
   \<and> (\<not> (\<exists>t\<in>set ts. manual_en t) \<and> (\<exists>t\<in>set ts. asr_en t) \<longrightarrow>
       (\<exists>t. findEnglishTrack ts = Some t \<and> first_with asr_en ts t))
   \<and> (\<not> (\<exists>t\<in>set ts. manual_en t) \<and> \<not> (\<exists>t\<in>set ts. asr_en t)
        \<and> (\<exists>t\<in>set ts. en_variant t) \<longrightarrow>
       (\<exists>t. findEnglishTrack ts = Some t \<and> first_with en_variant ts t))
   \<and> (\<not> (\<exists>t\<in>set ts. manual_en t) \<and> \<not> (\<exists>t\<in>set ts. asr_en t)
        \<and> \<not> (\<exists>t\<in>set ts. en_variant t) \<longrightarrow>
       findEnglishTrack ts = None)
   \<and> (manual_en m \<and> asr_en a \<longrightarrow>
       findEnglishTrack [a, m] = Some m \<and> findEnglishTrack [m, a] = Some m)"
proof (intro conjI impI)
  assume "\<exists>t\<in>set ts. manual_en t"
  from find_exists[OF this] obtain t where "find manual_en ts = Some t" by blast
  then show "\<exists>t. findEnglishTrack ts = Some t \<and> first_with manual_en ts t"
    by (simp add: findEnglishTrack_alt find_first_with)
next
  assume a: "\<not> (\<exists>t\<in>set ts. manual_en t) \<and> (\<exists>t\<in>set ts. asr_en t)"
  then have n: "find manual_en ts = None" by (simp add: find_None)
  from a find_exists[of ts asr_en] obtain t where "find asr_en ts = Some t" by blast
  with n show "\<exists>t. findEnglishTrack ts = Some t \<and> first_with asr_en ts t"
    by (simp add: findEnglishTrack_alt find_first_with)
next
  assume a: "\<not> (\<exists>t\<in>set ts. manual_en t) \<and> \<not> (\<exists>t\<in>set ts. asr_en t)
        \<and> (\<exists>t\<in>set ts. en_variant t)"
  then have n: "find manual_en ts = None" "find asr_en ts = None"
    by (simp_all add: find_None)
  from a find_exists[of ts en_variant] obtain t where "find en_variant ts = Some t" by blast
  with n show "\<exists>t. findEnglishTrack ts = Some t \<and> first_with en_variant ts t"
    by (simp add: findEnglishTrack_alt find_first_with)
next
  assume a: "\<not> (\<exists>t\<in>set ts. manual_en t) \<and> \<not> (\<exists>t\<in>set ts. asr_en t)
        \<and> \<not> (\<exists>t\<in>set ts. en_variant t)"
  then have "find manual_en ts = None" "find asr_en ts = None" "find en_variant ts = None"
    by (simp_all add: find_None)
  then show "findEnglishTrack ts = None" by (simp add: findEnglishTrack_alt)
next
  assume a: "manual_en m \<and> asr_en a"
  then have "\<not> manual_en a" by (auto simp: manual_en_def asr_en_def)
  with a show "findEnglishTrack [a, m] = Some m" by (simp add: findEnglishTrack_alt)
next
  assume a: "manual_en m \<and> asr_en a"
  then show "findEnglishTrack [m, a] = Some m" by (simp add: findEnglishTrack_alt)
qed

lemmas sample_tracks = sample_asr_def sample_manual_def sample_gb_def sample_es_def
  manual_en_def asr_en_def en_variant_def starts_with_def

theorem findEnglishTrack_priority_witness:
  "manual_en sample_manual \<and> asr_en sample_asr
   \<and> findEnglishTrack [sample_asr, sample_manual] = Some sample_manual
   \<and> findEnglishTrack [sample_manual, sample_asr] = Some sample_manual
   \<and> (\<exists>t\<in>set [sample_es, sample_asr]. asr_en t)
   \<and> (\<exists>t. findEnglishTrack [sample_es, sample_asr] = Some t
          \<and> first_with asr_en [sample_es, sample_asr] t)
   \<and> (\<exists>t\<in>set [sample_es, sample_gb]. en_variant t)
   \<and> (\<exists>t. findEnglishTrack [sample_es, sample_gb] = Some t
          \<and> first_with en_variant [sample_es, sample_gb] t)
   \<and> findEnglishTrack [sample_es] = None"
proof -
  have a: "manual_en sample_manual \<and> asr_en sample_asr"
    by (simp add: sample_tracks)
  have b: "\<not> (\<exists>t\<in>set [sample_es, sample_asr]. manual_en t)
      \<and> (\<exists>t\<in>set [sample_es, sample_asr]. asr_en t)"
    by (simp add: sample_tracks)
  have c: "\<not> (\<exists>t\<in>set [sample_es, sample_gb]. manual_en t)
      \<and> \<not> (\<exists>t\<in>set [sample_es, sample_gb]. asr_en t)
      \<and> (\<exists>t\<in>set [sample_es, sample_gb]. en_variant t)"
    by (simp add: sample_tracks)
  have d: "\<not> (\<exists>t\<in>set [sample_es]. manual_en t) \<and> \<not> (\<exists>t\<in>set [sample_es]. asr_en t)
      \<and> \<not> (\<exists>t\<in>set [sample_es]. en_variant t)"
    by (simp add: sample_tracks)
  note T1 = findEnglishTrack_priority[of "[sample_es, sample_asr]" sample_manual sample_asr]
  note T2 = findEnglishTrack_priority[of "[sample_es, sample_gb]" sample_manual sample_asr]
  note T3 = findEnglishTrack_priority[of "[sample_es]" sample_manual sample_asr]
  note e1 = T1[THEN conjunct2, THEN conjunct2, THEN conjunct2, THEN conjunct2, THEN mp, OF a]
  note e2 = T1[THEN conjunct2, THEN conjunct1, THEN mp, OF b]
  note e3 = T2[THEN conjunct2, THEN conjunct2, THEN conjunct1, THEN mp, OF c]
  note e4 = T3[THEN conjunct2, THEN conjunct2, THEN conjunct2, THEN conjunct1, THEN mp, OF d]
  show ?thesis
    by (intro conjI a[THEN conjunct1] a[THEN conjunct2] e1[THEN conjunct1] e1[THEN conjunct2]
        b[THEN conjunct2] e2 c[THEN conjunct2, THEN conjunct2] e3 e4)
qed

section \<open>The event-JSON parser: entries and timestamps\<close>






lemma Rep_Abs_safe:
  "- 9007199254740991 \<le> i \<Longrightarrow> i \<le> 9007199254740991 \<Longrightarrow>
     Rep_safe_integer (Abs_safe_integer i) = i"
  by (simp add: Abs_safe_integer_inverse)


lemma event_step_spec:
  "event_step acc ev =
     (if spec_emits ev
      then acc @ [\<lparr>timestamp = formatTimestamp (event_start ev), caption = event_text ev\<rparr>]
      else acc)"
  by (simp add: event_step_def spec_emits_def event_text_def event_start_def
      seg_text_def[abs_def] Let_def split: option.splits)

lemma foldl_event_step:
  "foldl event_step acc evs =
     acc @ map (\<lambda>ev. \<lparr>timestamp = formatTimestamp (event_start ev), caption = event_text ev\<rparr>)
             (filter spec_emits evs)"
  by (induction evs arbitrary: acc) (simp_all add: event_step_spec)

lemma formatTimestamp_65000: "formatTimestamp (Abs_safe_integer 65000) = ''1:05''"
  by (simp add: formatTimestamp_def Rep_Abs_safe js_rem_def number_to_string_def padStart2_def
      Let_def digits.simps)





lemma sample_events_emitted:
  "filter spec_emits sample_events
     = [\<lparr>tStartMs = Some (Abs_safe_integer 65000),
         segs = Some [\<lparr>utf8 = Some ''a''\<rparr>, \<lparr>utf8 = Some ''b''\<rparr>]\<rparr>]"
  by (simp add: sample_events_def spec_emits_def event_text_def seg_text_def trim_def
      js_space_def)





section \<open>Trimming\<close>

lemma trim_empty_iff: "trim s = [] \<longleftrightarrow> (\<forall>c\<in>set s. js_space c)"
proof
  assume "trim s = []"
  then have a: "\<forall>c\<in>set (dropWhile js_space s). js_space c"
    by (simp add: trim_def dropWhile_eq_Nil_conv)
  show "\<forall>c\<in>set s. js_space c"
  proof (cases "dropWhile js_space s")
    case Nil
    then show ?thesis by (simp add: dropWhile_eq_Nil_conv)
  next
    case (Cons x xs)
    then have "\<not> js_space x" using hd_dropWhile[of js_space s] by auto
    with a Cons show ?thesis by simp
  qed
next
  assume "\<forall>c\<in>set s. js_space c"
  then have "\<forall>c\<in>set (dropWhile js_space s). js_space c"
    using set_dropWhileD by fastforce
  then show "trim s = []" by (simp add: trim_def)
qed

lemma trim_has_ink: "trim s \<noteq> [] \<Longrightarrow> has_ink (trim s)"
proof -
  assume a: "trim s \<noteq> []"
  let ?d = "dropWhile js_space (rev (dropWhile js_space s))"
  from a have n: "?d \<noteq> []" by (simp add: trim_def)
  then have "\<not> js_space (hd ?d)" by (rule hd_dropWhile)
  moreover from n have "hd ?d \<in> set ?d" by simp
  ultimately show ?thesis by (auto simp: trim_def has_ink_def)
qed

lemma has_ink_trim: "has_ink s \<Longrightarrow> has_ink (trim s)"
proof -
  assume "has_ink s"
  then have "trim s \<noteq> []" by (auto simp: has_ink_def trim_empty_iff)
  then show ?thesis by (rule trim_has_ink)
qed

lemma has_ink_nonempty: "has_ink s \<Longrightarrow> s \<noteq> []"
  by (auto simp: has_ink_def)

section \<open>The cue-text parser: line by line\<close>

lemma split_first_decomp:
  "js_includes sep l \<Longrightarrow> \<exists>rest. l = split_first sep l @ sep @ rest"
proof (induction l)
  case Nil
  then show ?case by simp
next
  case (Cons x l)
  show ?case
  proof (cases "starts_with sep (x # l)")
    case True
    then obtain r where "lit_rest sep (x # l) = Some r"
      by (auto simp: starts_with_def)
    from lit_rest_suffix[OF this] have "x # l = sep @ r" .
    moreover from True have "split_first sep (x # l) = []" by simp
    ultimately show ?thesis by simp
  next
    case False
    with Cons show ?thesis by auto
  qed
qed

lemma vtt_line_skipped: "vtt_skipped l \<Longrightarrow> vtt_line st l = st"
  by (auto simp: vtt_line_def vtt_skipped_def Let_def)

lemma vtt_line_cue:
  "vtt_cue l \<Longrightarrow> vtt_line st l =
     \<lparr>transcript = flush st, currentText = [],
      currentTimestamp = trim (split_first ''-->'' (trim l))\<rparr>"
  by (auto simp: vtt_line_def vtt_cue_def vtt_skipped_def Let_def)

lemma vtt_line_text:
  "\<not> vtt_skipped l \<Longrightarrow> \<not> vtt_cue l \<Longrightarrow>
     vtt_line st l = st\<lparr>currentText := currentText st @ trim l @ '' ''\<rparr>"
  by (auto simp: vtt_line_def vtt_cue_def vtt_skipped_def Let_def)

lemma parseVTT_sample:
  "parseVTT sample_vtt = [\<lparr>timestamp = ''00:00:01.000'', caption = ''hello world''\<rparr>]"
  by (simp add: parseVTT_def sample_vtt_def vtt_line_def flush_def trim_def js_space_def
      starts_with_def Let_def)

lemma cue_after_cue:
  assumes "vtt_cue l1" "vtt_cue l2"
  shows "transcript (vtt_line (vtt_line st l1) l2) = transcript (vtt_line st l1)"
  by (simp add: vtt_line_cue[OF assms(1)] vtt_line_cue[OF assms(2)] flush_def)

lemma only_cues_fold:
  assumes "\<forall>l\<in>set ls. vtt_skipped l \<or> vtt_cue l"
    and "transcript st = []" "currentText st = []"
  shows "transcript (foldl vtt_line st ls) = [] \<and> currentText (foldl vtt_line st ls) = []"
  using assms
proof (induction ls arbitrary: st)
  case Nil
  then show ?case by simp
next
  case (Cons l ls)
  have "transcript (vtt_line st l) = [] \<and> currentText (vtt_line st l) = []"
  proof (cases "vtt_skipped l")
    case True
    with Cons.prems show ?thesis by (simp add: vtt_line_skipped)
  next
    case False
    with Cons.prems have "vtt_cue l" by simp
    with Cons.prems show ?thesis by (simp add: vtt_line_cue flush_def)
  qed
  with Cons show ?case by simp
qed

lemma only_cues:
  assumes "\<forall>l\<in>set (split_on nl doc). vtt_skipped l \<or> vtt_cue l"
  shows "parseVTT doc = []"
proof -
  from only_cues_fold[OF assms, of vtt_init]
  show ?thesis
    by (simp add: parseVTT_def vtt_init_def flush_def Let_def)
qed

text \<open>
  C8. On a line, trimmed first: the header text \<open>WEBVTT\<close>, an empty line and a line that
  starts with \<open>NOTE\<close> leave the state as it is; a line that contains \<open>-->\<close> pushes
  the pending pair when its text and its timestamp are both non-empty, empties the text
  and records as the new timestamp the text before the first \<open>-->\<close>, trimmed and
  otherwise unchanged; any other line is appended to the pending text, followed by one
  space. After the last line the pending pair is pushed under the same condition. The
  document of the specification's example gives the single entry with timestamp
  \<open>00:00:01.000\<close> and text \<open>hello world\<close>; a timing line that follows a timing line
  pushes nothing, and a document of timing and skipped lines only gives no entry.
\<close>

theorem parseVTT_line_by_line:
  "(vtt_skipped l \<longrightarrow> vtt_line st l = st)
   \<and> (vtt_cue l \<longrightarrow>
        vtt_line st l =
          \<lparr>transcript =
             (if currentText st \<noteq> [] \<and> currentTimestamp st \<noteq> []
              then transcript st
                     @ [\<lparr>timestamp = currentTimestamp st, caption = trim (currentText st)\<rparr>]
              else transcript st),
           currentText = [],
           currentTimestamp = trim (split_first ''-->'' (trim l))\<rparr>
        \<and> (\<exists>rest. trim l = split_first ''-->'' (trim l) @ ''-->'' @ rest))
   \<and> (\<not> vtt_skipped l \<and> \<not> vtt_cue l \<longrightarrow>
        vtt_line st l = st\<lparr>currentText := currentText st @ trim l @ '' ''\<rparr>)
   \<and> parseVTT doc = flush (foldl vtt_line vtt_init (split_on nl doc))
   \<and> flush st =
        (if currentText st \<noteq> [] \<and> currentTimestamp st \<noteq> []
         then transcript st
                @ [\<lparr>timestamp = currentTimestamp st, caption = trim (currentText st)\<rparr>]
         else transcript st)
   \<and> parseVTT sample_vtt = [\<lparr>timestamp = ''00:00:01.000'', caption = ''hello world''\<rparr>]
   \<and> (vtt_cue l1 \<and> vtt_cue l2 \<longrightarrow>
        transcript (vtt_line (vtt_line st l1) l2) = transcript (vtt_line st l1))
   \<and> ((\<forall>x\<in>set (split_on nl doc). vtt_skipped x \<or> vtt_cue x) \<longrightarrow> parseVTT doc = [])"
proof (intro conjI impI)
  assume "vtt_skipped l"
  then show "vtt_line st l = st" by (rule vtt_line_skipped)
next
  assume c: "vtt_cue l"
  then show "vtt_line st l =
          \<lparr>transcript =
             (if currentText st \<noteq> [] \<and> currentTimestamp st \<noteq> []
              then transcript st
                     @ [\<lparr>timestamp = currentTimestamp st, caption = trim (currentText st)\<rparr>]
              else transcript st),
           currentText = [],
           currentTimestamp = trim (split_first ''-->'' (trim l))\<rparr>"
    by (simp add: vtt_line_cue flush_def)
  from c have "js_includes ''-->'' (trim l)" by (simp add: vtt_cue_def)
  then show "\<exists>rest. trim l = split_first ''-->'' (trim l) @ ''-->'' @ rest"
    by (rule split_first_decomp)
next
  assume "\<not> vtt_skipped l \<and> \<not> vtt_cue l"
  then show "vtt_line st l = st\<lparr>currentText := currentText st @ trim l @ '' ''\<rparr>"
    by (simp add: vtt_line_text)
next
  show "parseVTT doc = flush (foldl vtt_line vtt_init (split_on nl doc))"
    by (simp add: parseVTT_def vtt_init_def Let_def)
next
  show "flush st =
        (if currentText st \<noteq> [] \<and> currentTimestamp st \<noteq> []
         then transcript st
                @ [\<lparr>timestamp = currentTimestamp st, caption = trim (currentText st)\<rparr>]
         else transcript st)"
    by (simp add: flush_def)
next
  show "parseVTT sample_vtt = [\<lparr>timestamp = ''00:00:01.000'', caption = ''hello world''\<rparr>]"
    by (rule parseVTT_sample)
next
  assume "vtt_cue l1 \<and> vtt_cue l2"
  then show "transcript (vtt_line (vtt_line st l1) l2) = transcript (vtt_line st l1)"
    by (simp add: cue_after_cue)
next
  assume "\<forall>x\<in>set (split_on nl doc). vtt_skipped x \<or> vtt_cue x"
  then show "parseVTT doc = []" by (rule only_cues)
qed

lemma sample_lines:
  "vtt_skipped ''WEBVTT''"
  "vtt_cue ''00:00:01.000 --> 00:00:02.000''"
  "vtt_cue ''00:00:03.000 --> 00:00:04.000''"
  "\<not> vtt_skipped ''hello''" "\<not> vtt_cue ''hello''"
  by (simp_all add: vtt_skipped_def vtt_cue_def trim_def js_space_def starts_with_def)

theorem parseVTT_line_by_line_witness:
  "vtt_skipped ''WEBVTT'' \<and> vtt_line vtt_init ''WEBVTT'' = vtt_init
   \<and> vtt_cue ''00:00:01.000 --> 00:00:02.000''
   \<and> vtt_cue ''00:00:03.000 --> 00:00:04.000''
   \<and> vtt_line vtt_init ''00:00:01.000 --> 00:00:02.000''
       = \<lparr>transcript = [], currentText = [], currentTimestamp = ''00:00:01.000''\<rparr>
   \<and> transcript (vtt_line (vtt_line vtt_init ''00:00:01.000 --> 00:00:02.000'')
         ''00:00:03.000 --> 00:00:04.000'')
       = transcript (vtt_line vtt_init ''00:00:01.000 --> 00:00:02.000'')
   \<and> \<not> vtt_skipped ''hello'' \<and> \<not> vtt_cue ''hello''
   \<and> vtt_line vtt_init ''hello'' = vtt_init\<lparr>currentText := ''hello ''\<rparr>
   \<and> parseVTT (''00:00:01.000 --> 00:00:02.000'' @ [nl] @ ''00:00:03.000 --> 00:00:04.000'')
       = []"
proof -
  let ?c1 = "''00:00:01.000 --> 00:00:02.000''"
  let ?c2 = "''00:00:03.000 --> 00:00:04.000''"
  let ?doc = "?c1 @ [nl] @ ?c2"
  note T1 = parseVTT_line_by_line[of "''WEBVTT''" vtt_init ?doc ?c1 ?c2]
  note T2 = parseVTT_line_by_line[of "''hello''" vtt_init ?doc ?c1 ?c2]
  have cc: "vtt_cue ?c1 \<and> vtt_cue ?c2" by (simp add: sample_lines)
  have tt: "\<not> vtt_skipped ''hello'' \<and> \<not> vtt_cue ''hello''" by (simp add: sample_lines)
  have ll: "\<forall>x\<in>set (split_on nl ?doc). vtt_skipped x \<or> vtt_cue x"
    by (simp add: sample_lines)
  note e1 = T1[THEN conjunct1, THEN mp, OF sample_lines(1)]
  note e2 = T2[THEN conjunct2, THEN conjunct2, THEN conjunct1, THEN mp, OF tt]
  note e3 = T1[THEN conjunct2, THEN conjunct2, THEN conjunct2, THEN conjunct2, THEN conjunct2,
      THEN conjunct2, THEN conjunct1, THEN mp, OF cc]
  note e4 = T1[THEN conjunct2, THEN conjunct2, THEN conjunct2, THEN conjunct2, THEN conjunct2,
      THEN conjunct2, THEN conjunct2, THEN mp, OF ll]
  from e2 have e2': "vtt_line vtt_init ''hello'' = vtt_init\<lparr>currentText := ''hello ''\<rparr>"
    by (simp add: vtt_init_def trim_def js_space_def)
  note T3 = parseVTT_line_by_line[of ?c1 vtt_init ?doc ?c1 ?c2]
  from T3[THEN conjunct2, THEN conjunct1, THEN mp, OF sample_lines(2), THEN conjunct1]
  have e5: "vtt_line vtt_init ?c1
      = \<lparr>transcript = [], currentText = [], currentTimestamp = ''00:00:01.000''\<rparr>"
    by (simp add: vtt_init_def trim_def js_space_def starts_with_def)
  show ?thesis
    by (intro conjI sample_lines e1 e2' e3 e4 e5)
qed

section \<open>No entry without text\<close>

lemma flush_inv: "vtt_inv st \<Longrightarrow> \<forall>e\<in>set (flush st). has_ink (caption e)"
  by (auto simp: vtt_inv_def flush_def has_ink_trim)

lemma vtt_line_inv: "vtt_inv st \<Longrightarrow> vtt_inv (vtt_line st l)"
proof (cases "vtt_skipped l")
  case True
  assume "vtt_inv st"
  with True show ?thesis by (simp add: vtt_line_skipped)
next
  case False
  assume i: "vtt_inv st"
  show ?thesis
  proof (cases "vtt_cue l")
    case True
    with flush_inv[OF i] show ?thesis by (simp add: vtt_line_cue vtt_inv_def)
  next
    case c: False
    from False have "trim l \<noteq> []" by (simp add: vtt_skipped_def)
    from trim_has_ink[OF this] have "has_ink (currentText st @ trim l @ '' '')"
      by (auto simp: has_ink_def)
    with i show ?thesis by (simp add: vtt_line_text[OF False c] vtt_inv_def)
  qed
qed

lemma foldl_inv: "vtt_inv st \<Longrightarrow> vtt_inv (foldl vtt_line st ls)"
  by (induction ls arbitrary: st) (simp_all add: vtt_line_inv)

lemma parseVTT_ink: "e \<in> set (parseVTT doc) \<Longrightarrow> has_ink (caption e)"
proof -
  have "vtt_inv vtt_init" by (simp add: vtt_inv_def vtt_init_def)
  from flush_inv[OF foldl_inv[OF this]]
  show "e \<in> set (parseVTT doc) \<Longrightarrow> has_ink (caption e)"
    by (simp add: parseVTT_def vtt_init_def Let_def)
qed

lemma parseTranscriptData_ink: "e \<in> set (parseTranscriptData d) \<Longrightarrow> has_ink (caption e)"
proof (cases d)
  case None
  assume "e \<in> set (parseTranscriptData d)"
  with None show ?thesis by (simp add: parseTranscriptData_def)
next
  case (Some evs)
  assume "e \<in> set (parseTranscriptData d)"
  with Some obtain ev where ev: "spec_emits ev" "caption e = event_text ev"
    by (auto simp: parseTranscriptData_def foldl_event_step)
  then obtain ss where "segs ev = Some ss" "trim (concat (map seg_text ss)) \<noteq> []"
    by (auto simp: spec_emits_def event_text_def)
  with ev trim_has_ink[of "concat (map seg_text ss)"] show ?thesis
    by (simp add: event_text_def)
qed

lemma blank_event_dropped:
  "segs ev = Some ss \<Longrightarrow> \<not> has_ink (concat (map seg_text ss)) \<Longrightarrow> event_step acc ev = acc"
proof -
  assume a: "segs ev = Some ss" "\<not> has_ink (concat (map seg_text ss))"
  then have "trim (concat (map seg_text ss)) = []"
    by (simp add: trim_empty_iff has_ink_def)
  with a show ?thesis by (simp add: event_step_spec spec_emits_def event_text_def)
qed

text \<open>
  C9. Every entry that the event-JSON parser or the cue-text parser returns, for any
  input document, has a text that is not empty and not white space only; an event whose
  segment texts are empty or white space only adds no entry, and the cue-text parser
  pushes a pending text only when it is not empty.
\<close>

theorem entries_have_text:
  "(\<forall>e\<in>set (parseTranscriptData d). caption e \<noteq> [] \<and> has_ink (caption e))
   \<and> (\<forall>e\<in>set (parseVTT doc). caption e \<noteq> [] \<and> has_ink (caption e))
   \<and> (segs ev = Some ss \<and> \<not> has_ink (concat (map seg_text ss)) \<longrightarrow>
        event_step acc ev = acc)
   \<and> (currentText st = [] \<longrightarrow> flush st = transcript st)"
proof (intro conjI ballI impI)
  fix e assume "e \<in> set (parseTranscriptData d)"
  from parseTranscriptData_ink[OF this]
  show "has_ink (caption e)" "caption e \<noteq> []" by (simp_all add: has_ink_nonempty)
next
  fix e assume "e \<in> set (parseVTT doc)"
  from parseVTT_ink[OF this]
  show "has_ink (caption e)" "caption e \<noteq> []" by (simp_all add: has_ink_nonempty)
next
  assume "segs ev = Some ss \<and> \<not> has_ink (concat (map seg_text ss))"
  then show "event_step acc ev = acc" by (simp add: blank_event_dropped)
next
  assume "currentText st = []"
  then show "flush st = transcript st" by (simp add: flush_def)
qed

theorem entries_have_text_witness:
  "\<lparr>timestamp = ''1:05'', caption = ''ab''\<rparr> \<in> set (parseTranscriptData (Some sample_events))
   \<and> has_ink ''ab''
   \<and> \<lparr>timestamp = ''00:00:01.000'', caption = ''hello world''\<rparr> \<in> set (parseVTT sample_vtt)
   \<and> has_ink ''hello world''
   \<and> \<not> has_ink (concat (map seg_text [\<lparr>utf8 = Some ''  ''\<rparr>]))
   \<and> event_step [] \<lparr>tStartMs = Some (Abs_safe_integer 70000),
         segs = Some [\<lparr>utf8 = Some ''  ''\<rparr>]\<rparr> = []
   \<and> flush vtt_init = []"
proof -
  let ?b = "\<lparr>tStartMs = Some (Abs_safe_integer 70000),
      segs = Some [\<lparr>utf8 = Some ''  ''\<rparr>]\<rparr>"
  note T = entries_have_text[of "Some sample_events" sample_vtt ?b "[\<lparr>utf8 = Some ''  ''\<rparr>]"
      "[]" vtt_init]
  have m1: "\<lparr>timestamp = ''1:05'', caption = ''ab''\<rparr>
      \<in> set (parseTranscriptData (Some sample_events))"
    by (simp add: parseTranscriptData_def foldl_event_step sample_events_emitted
        event_start_def event_text_def seg_text_def trim_def js_space_def
        formatTimestamp_65000)
  have m2: "\<lparr>timestamp = ''00:00:01.000'', caption = ''hello world''\<rparr>
      \<in> set (parseVTT sample_vtt)"
    by (simp add: parseVTT_sample)
  have b: "segs ?b = Some [\<lparr>utf8 = Some ''  ''\<rparr>]
      \<and> \<not> has_ink (concat (map seg_text [\<lparr>utf8 = Some ''  ''\<rparr>]))"
    by (simp add: has_ink_def seg_text_def js_space_def)
  have i: "currentText vtt_init = []" "transcript vtt_init = []"
    by (simp_all add: vtt_init_def)
  from T[THEN conjunct1, THEN bspec, OF m1] have e1: "has_ink ''ab''" by simp
  from T[THEN conjunct2, THEN conjunct1, THEN bspec, OF m2] have e2: "has_ink ''hello world''"
    by simp
  note e3 = T[THEN conjunct2, THEN conjunct2, THEN conjunct1, THEN mp, OF b]
  from T[THEN conjunct2, THEN conjunct2, THEN conjunct2, THEN mp, OF i(1)] i(2)
  have e4: "flush vtt_init = []" by simp
  show ?thesis
    by (intro conjI m1 m2 e1 e2 e3 e4 b[THEN conjunct2])
qed

section \<open>The subtitle file\<close>

lemma map_of_first:
  "\<forall>f\<in>set pre. fst f \<noteq> n \<Longrightarrow> map_of (pre @ (n, c) # post) n = Some c"
  by (induction pre) auto

lemma extractTranscriptB_first_vtt:
  assumes "spawn ''/home/manu/anaconda3/bin/yt-dlp'' (ytdlp_args tempDir url)
             = Closed (Some 0) stderr files"
    and "files = pre @ (name, Some content) # post" "ends_with ''.vtt'' name"
    and "\<forall>f\<in>set pre. \<not> ends_with ''.vtt'' (fst f)"
  shows "extractTranscriptB spawn url tempDir fs
           = (Inr (parseVTT content), fs(tempDir \<mapsto> files))"
proof -
  from assms(2-4)
  have "first_with (\<lambda>file. ends_with ''.vtt'' (fst file)) files (name, Some content)"
    unfolding first_with_def by auto
  then have f: "find (\<lambda>file. ends_with ''.vtt'' (fst file)) files = Some (name, Some content)"
    unfolding first_with_def by (simp add: find_first)
  from assms(3,4) have "\<forall>f\<in>set pre. fst f \<noteq> name" by auto
  from map_of_first[OF this, of "Some content" post] assms(2)
  have m: "map_of files name = Some (Some content)"
    by simp
  show ?thesis
    by (simp add: extractTranscriptB_def assms(1) f m)
qed

lemma extractTranscriptB_no_vtt:
  assumes "spawn ''/home/manu/anaconda3/bin/yt-dlp'' (ytdlp_args tempDir url)
             = Closed (Some 0) stderr files"
    and "\<forall>f\<in>set files. \<not> ends_with ''.vtt'' (fst f)"
  shows "extractTranscriptB spawn url tempDir fs
           = (Inl (Msg ''No transcript file found. Video may not have subtitles.''),
              fs(tempDir \<mapsto> files))"
proof -
  from assms(2) have "find (\<lambda>file. ends_with ''.vtt'' (fst file)) files = None"
    by (simp add: find_None)
  then show ?thesis
    by (simp add: extractTranscriptB_def assms(1))
qed

text \<open>
  C10. In variant B, after the downloader has closed with exit code 0: when the scratch
  directory lists a readable file whose name ends in \<open>.vtt\<close>, with no such name
  before it in the listing, that file is the one parsed, whatever follows it in the
  listing; when no name ends in \<open>.vtt\<close>, the extraction fails with the message
  \<^verbatim>\<open>No transcript file found. Video may not have subtitles.\<close>, which no parse
  produces, and the handler answers a valid request with the 500 that carries it.
\<close>

theorem vtt_file_selection:
  assumes "spawn ''/home/manu/anaconda3/bin/yt-dlp'' (ytdlp_args tempDir url)
             = Closed (Some 0) stderr files"
  shows
    "(\<forall>pre name content post.
        files = pre @ (name, Some content) # post \<and> ends_with ''.vtt'' name
          \<and> (\<forall>f\<in>set pre. \<not> ends_with ''.vtt'' (fst f)) \<longrightarrow>
        fst (extractTranscriptB spawn url tempDir fs) = Inr (parseVTT content))
     \<and> ((\<forall>f\<in>set files. \<not> ends_with ''.vtt'' (fst f)) \<longrightarrow>
        fst (extractTranscriptB spawn url tempDir fs)
          = Inl (Msg ''No transcript file found. Video may not have subtitles.''))
     \<and> (httpMethod event = ''POST'' \<and> parse_url JSON_parse (body event) = Inr (Some url)
          \<and> \<not> url_rejected (Some url) \<and> tempDir = ''/tmp/yt-'' @ number_to_string now
          \<and> (\<forall>f\<in>set files. \<not> ends_with ''.vtt'' (fst f)) \<longrightarrow>
        fst (handlerB JSON_parse spawn now fs event)
          = failure_response
              (Msg ''No transcript file found. Video may not have subtitles.''))"
proof (intro conjI allI impI)
  fix pre name content post
  assume "files = pre @ (name, Some content) # post \<and> ends_with ''.vtt'' name
          \<and> (\<forall>f\<in>set pre. \<not> ends_with ''.vtt'' (fst f))"
  then show "fst (extractTranscriptB spawn url tempDir fs) = Inr (parseVTT content)"
    by (simp add: extractTranscriptB_first_vtt[where spawn=spawn and tempDir=tempDir and url=url, OF assms])
next
  assume "\<forall>f\<in>set files. \<not> ends_with ''.vtt'' (fst f)"
  then show "fst (extractTranscriptB spawn url tempDir fs)
          = Inl (Msg ''No transcript file found. Video may not have subtitles.'')"
    by (simp add: extractTranscriptB_no_vtt[where spawn=spawn and tempDir=tempDir and url=url, OF assms])
next
  assume a: "httpMethod event = ''POST'' \<and> parse_url JSON_parse (body event) = Inr (Some url)
          \<and> \<not> url_rejected (Some url) \<and> tempDir = ''/tmp/yt-'' @ number_to_string now
          \<and> (\<forall>f\<in>set files. \<not> ends_with ''.vtt'' (fst f))"
  then have n: "\<forall>f\<in>set files. \<not> ends_with ''.vtt'' (fst f)" by simp
  from a have p: "httpMethod event = ''POST''" by simp
  from a show "fst (handlerB JSON_parse spawn now fs event)
          = failure_response
              (Msg ''No transcript file found. Video may not have subtitles.'')"
    using extractTranscriptB_no_vtt[where spawn=spawn and tempDir=tempDir and url=url
        and fs="mkdirSync tempDir fs", OF assms n]
    by (simp add: handlerB_post[OF p])
qed

lemma sample_files_names:
  "\<not> ends_with ''.vtt'' ''notes.txt''" "ends_with ''.vtt'' ''talk.en.vtt''"
  by (simp_all add: ends_with_def starts_with_def)

theorem vtt_file_selection_witness:
  "sample_spawn ''/home/manu/anaconda3/bin/yt-dlp''
       (ytdlp_args ''/tmp/yt-17'' (JStr ''https://youtu.be/dQw4w9WgXcQ''))
     = Closed (Some 0) [] sample_files
   \<and> sample_files = [(''notes.txt'', Some ''x'')] @ (''talk.en.vtt'', Some sample_vtt)
        # [(''talk.fr.vtt'', Some ''WEBVTT'')]
   \<and> ends_with ''.vtt'' ''talk.en.vtt''
   \<and> fst (extractTranscriptB sample_spawn
        (JStr ''https://youtu.be/dQw4w9WgXcQ'') ''/tmp/yt-17'' Map.empty)
       = Inr [\<lparr>timestamp = ''00:00:01.000'', caption = ''hello world''\<rparr>]
   \<and> fst (extractTranscriptB sample_spawn_nothing
        (JStr ''https://youtu.be/dQw4w9WgXcQ'') ''/tmp/yt-17'' Map.empty)
       = Inl (Msg ''No transcript file found. Video may not have subtitles.'')
   \<and> fst (handlerB sample_parse sample_spawn_nothing 17 Map.empty
        \<lparr>httpMethod = ''POST'', body = Some sample_body\<rparr>)
       = failure_response (Msg ''No transcript file found. Video may not have subtitles.'')"
proof -
  let ?u = "JStr ''https://youtu.be/dQw4w9WgXcQ''"
  have c1: "sample_spawn ''/home/manu/anaconda3/bin/yt-dlp'' (ytdlp_args ''/tmp/yt-17'' ?u)
      = Closed (Some 0) [] sample_files"
    by (simp add: sample_spawn_def)
  have c2: "sample_spawn_nothing ''/home/manu/anaconda3/bin/yt-dlp''
        (ytdlp_args ''/tmp/yt-17'' ?u)
      = Closed (Some 0) [] [(''notes.txt'', Some ''x'')]"
    by (simp add: sample_spawn_nothing_def)
  have f: "sample_files = [(''notes.txt'', Some ''x'')] @ (''talk.en.vtt'', Some sample_vtt)
        # [(''talk.fr.vtt'', Some ''WEBVTT'')]"
    by (simp add: sample_files_def)
  have h1: "sample_files = [(''notes.txt'', Some ''x'')] @ (''talk.en.vtt'', Some sample_vtt)
        # [(''talk.fr.vtt'', Some ''WEBVTT'')] \<and> ends_with ''.vtt'' ''talk.en.vtt''
      \<and> (\<forall>f\<in>set [(''notes.txt'', Some ''x'')]. \<not> ends_with ''.vtt'' (fst f))"
    using f by (simp add: sample_files_names)
  have h2: "\<forall>f\<in>set [(''notes.txt'', Some ''x'')]. \<not> ends_with ''.vtt'' (fst f)"
    by (simp add: sample_files_names)
  note T1 = vtt_file_selection[where spawn=sample_spawn and tempDir="''/tmp/yt-17''"
      and url="?u" and fs=Map.empty, OF c1]
  note T2 = vtt_file_selection[where spawn=sample_spawn_nothing and tempDir="''/tmp/yt-17''"
      and url="?u" and fs=Map.empty, OF c2]
  from T1[THEN conjunct1, rule_format, OF h1]
  have e1: "fst (extractTranscriptB sample_spawn ?u ''/tmp/yt-17'' Map.empty)
      = Inr [\<lparr>timestamp = ''00:00:01.000'', caption = ''hello world''\<rparr>]"
    by (simp add: parseVTT_sample)
  note e2 = T2[THEN conjunct2, THEN conjunct1, THEN mp, OF h2]
  let ?ev = "\<lparr>httpMethod = ''POST'', body = Some sample_body\<rparr>"
  have h3: "httpMethod ?ev = ''POST'' \<and> parse_url sample_parse (body ?ev) = Inr (Some ?u)
      \<and> \<not> url_rejected (Some ?u) \<and> ''/tmp/yt-17'' = ''/tmp/yt-'' @ number_to_string 17
      \<and> (\<forall>f\<in>set [(''notes.txt'', Some ''x'')]. \<not> ends_with ''.vtt'' (fst f))"
    by (simp add: parse_url_def sample_parse_def sample_body_def url_rejected_def
        sample_url_accepted number_to_string_def digits.simps sample_files_names)
  note T3 = vtt_file_selection[where spawn=sample_spawn_nothing and tempDir="''/tmp/yt-17''"
      and url="?u" and fs=Map.empty and event="?ev" and JSON_parse=sample_parse and now=17,
      OF c2]
  note e3 = T3[THEN conjunct2, THEN conjunct2, THEN mp, OF h3]
  show ?thesis
    by (intro conjI c1 f sample_files_names(2) e1 e2 e3)
qed

section \<open>The identifier extractor: shapes\<close>

lemma run_Seq_Lit:
  "run (Seq (Lit l) b) (c, s) = (case lit_rest l s of None \<Rightarrow> [] | Some r \<Rightarrow> run b (c, r))"
  by (simp split: option.splits)

lemma run_Seq_Cls:
  "run (Seq (Cls p) b) (c, s) = (case s of [] \<Rightarrow> [] | x # t \<Rightarrow> if p x then run b (c, t) else [])"
  by (simp split: list.splits)

lemma run_Seq_Alt: "run (Seq (Alt a1 a2) b) st = run (Seq a1 b) st @ run (Seq a2 b) st"
  by simp

lemma concat_map_concat:
  "concat (map f (concat xss)) = concat (map (\<lambda>xs. concat (map f xs)) xss)"
  by (induction xss) simp_all

lemma run_Seq_Seq: "run (Seq (Seq a1 a2) b) st = run (Seq a1 (Seq a2 b)) st"
proof -
  have "run (Seq (Seq a1 a2) b) st = concat (map (run b) (concat (map (run a2) (run a1 st))))"
    by simp
  also have "\<dots> = concat (map (\<lambda>x. concat (map (run b) (run a2 x))) (run a1 st))"
    by (simp only: concat_map_concat map_map o_def)
  also have "\<dots> = run (Seq a1 (Seq a2 b)) st"
  proof -
    have "run (Seq a2 b) = (\<lambda>x. concat (map (run b) (run a2 x)))"
      by (rule ext) simp
    then show ?thesis by simp
  qed
  finally show ?thesis .
qed

lemma run_Seq_Opt: "run (Seq (Opt a) b) st = run (Seq a b) st @ run b st"
  by simp

lemma run_Seq_Star_Nil: "run (Seq (Star p) b) (c, []) = run b (c, [])"
  by simp

lemma run_Seq_Star_Cons:
  "run (Seq (Star p) b) (c, x # t) =
     (if p x then run (Seq (Star p) b) (c, t) else []) @ run b (c, x # t)"
  by simp

lemma run_Seq_Plus_Nil: "run (Seq (Plus p) b) (c, []) = []"
  by (simp add: plus_rests_def)

lemma run_Seq_Plus_Cons:
  "run (Seq (Plus p) b) (c, x # t) = (if p x then run (Seq (Star p) b) (c, t) else [])"
  by (simp add: plus_rests_def)

lemmas run_cont = run_Seq_Lit run_Seq_Cls run_Seq_Alt run_Seq_Seq run_Seq_Opt
  run_Seq_Star_Nil run_Seq_Star_Cons run_Seq_Plus_Nil run_Seq_Plus_Cons

lemma star_no_slash:
  "CHR ''/'' \<notin> set s \<Longrightarrow> run (Seq (Star p) (Seq (Lit ''/'') b)) (c, s) = []"
  by (induction s) (auto simp add: run_cont simp del: run.simps(3))

lemma plus_no_slash:
  "CHR ''/'' \<notin> set s \<Longrightarrow> run (Seq (Plus p) (Seq (Lit ''/'') b)) (c, s) = []"
  by (cases s) (auto simp add: run_cont star_no_slash simp del: run.simps(3))

lemma star_no_v_post:
  "\<not> js_includes ''v='' s \<Longrightarrow>
     run (Seq (Star p) (Seq (Cls qmark_or_amp) (Seq (Lit ''v='') b))) (c, s) = []"
proof (induction s)
  case Nil
  then show ?case by (simp add: run_cont del: run.simps(3))
next
  case (Cons x t)
  then have t: "\<not> js_includes ''v='' t" by simp
  have "lit_rest ''v='' t = None"
  proof (cases t)
    case Nil
    then show ?thesis by simp
  next
    case (Cons y t')
    with t show ?thesis by (simp add: starts_with_def)
  qed
  with Cons.IH[OF t] show ?case
    by (simp add: run_cont del: run.simps(3))
qed

lemma star_no_v:
  "\<forall>x\<in>set s1. \<not> qmark_or_amp x \<Longrightarrow> \<not> js_includes ''v='' s2 \<Longrightarrow>
     run (Seq (Star p) (Seq (Cls qmark_or_amp) (Seq (Lit ''v='') b))) (c, s1 @ s2) = []"
proof (induction s1)
  case Nil
  then show ?case by (simp add: star_no_v_post del: run.simps(3))
next
  case (Cons x t)
  then show ?case
    by (simp add: run_cont del: run.simps(3))
qed

lemma cap_id:
  "length v = 11 \<Longrightarrow> list_all id_cls v \<Longrightarrow>
     run (Cap (Rep 11 id_cls)) (c, v @ post) = [(Some v, post)]"
  by simp

lemma run_flat: "run (flat r k) st = run (Seq r k) st"
proof (induction r arbitrary: k st)
  case (Seq a b)
  have "run (flat (Seq a b) k) st = run (Seq a (flat b k)) st"
    by (simp add: Seq.IH(1))
  also have "\<dots> = concat (map (run (flat b k)) (run a st))" by simp
  also have "\<dots> = concat (map (run (Seq b k)) (run a st))"
    using Seq.IH(2) by (simp cong: map_cong)
  also have "\<dots> = run (Seq a (Seq b k)) st" by simp
  also have "\<dots> = run (Seq (Seq a b) k) st" by (simp only: run_Seq_Seq)
  finally show ?case .
next
  case (Alt a b)
  then show ?case by (simp del: run.simps(3) add: run_Seq_Alt)
next
  case (Opt a)
  then show ?case by (simp del: run.simps(3) add: run_Seq_Opt)
qed simp_all

lemma video_id_rx_flat:
  "run video_id_rx st = run (flat id_prefix_rx (Cap (Rep 11 id_cls))) st"
  by (simp only: run_flat video_id_rx_def)

lemmas run_atoms = run_Seq_Lit run_Seq_Cls run_Seq_Star_Nil run_Seq_Star_Cons
  run_Seq_Plus_Nil run_Seq_Plus_Cons

lemma id_cls_facts:
  assumes "list_all id_cls v"
  shows "CHR ''/'' \<notin> set v" "\<forall>x\<in>set v. \<not> qmark_or_amp x"
  using assms by (auto simp: list_all_iff id_cls_def qmark_or_amp_def)

lemma run_watch:
  assumes "length v = 11" "list_all id_cls v" "CHR ''/'' \<notin> set post" "\<not> js_includes ''v='' post"
  shows "run video_id_rx (None, ''youtube.com/watch?v='' @ v @ post) = [(Some v, post)]"
  using assms id_cls_facts[OF assms(2)]
  by (simp add: video_id_rx_flat id_prefix_rx_def run_atoms star_no_slash plus_no_slash
      star_no_v cap_id dot_def not_slash_def qmark_or_amp_def js_line_terminator_def
      del: run.simps(3))

lemma run_short:
  assumes "length v = 11" "list_all id_cls v"
  shows "run video_id_rx (None, ''youtu.be/'' @ v @ post) = [(Some v, post)]"
  using assms
  by (simp add: video_id_rx_flat id_prefix_rx_def run_atoms cap_id del: run.simps(3))

lemma run_embed:
  assumes "length v = 11" "list_all id_cls v" "CHR ''/'' \<notin> set post" "\<not> js_includes ''v='' post"
  shows "run video_id_rx (None, ''youtube.com/embed/'' @ v @ post) = [(Some v, post)]"
  using assms id_cls_facts[OF assms(2)]
  by (simp add: video_id_rx_flat id_prefix_rx_def run_atoms star_no_slash plus_no_slash
      star_no_v cap_id dot_def not_slash_def qmark_or_amp_def js_line_terminator_def
      del: run.simps(3))

lemma run_vpath:
  assumes "length v = 11" "list_all id_cls v" "CHR ''/'' \<notin> set post" "\<not> js_includes ''v='' post"
  shows "run video_id_rx (None, ''youtube.com/v/'' @ v @ post) = [(Some v, post)]"
  using assms id_cls_facts[OF assms(2)]
  by (simp add: video_id_rx_flat id_prefix_rx_def run_atoms star_no_slash plus_no_slash
      star_no_v cap_id dot_def not_slash_def qmark_or_amp_def js_line_terminator_def
      del: run.simps(3))

lemma lit_rest_iff: "lit_rest l s = Some r \<longleftrightarrow> s = l @ r"
  by (induction l arbitrary: s) (auto split: list.splits)

lemma star_rests_set: "set (star_rests p s) = {t. \<exists>w. s = w @ t \<and> list_all p w}"
proof (induction s)
  case Nil
  then show ?case by auto
next
  case (Cons x s)
  show ?case
  proof (intro set_eqI iffI)
    fix t assume "t \<in> set (star_rests p (x # s))"
    then consider "t = x # s" | "p x" "t \<in> set (star_rests p s)"
      by (auto split: if_splits)
    then show "t \<in> {t. \<exists>w. x # s = w @ t \<and> list_all p w}"
    proof cases
      case 1
      then show ?thesis by (auto intro: exI[of _ "[]"])
    next
      case 2
      with Cons obtain w where "s = w @ t" "list_all p w" by auto
      with 2 show ?thesis by (auto intro: exI[of _ "x # w"])
    qed
  next
    fix t assume "t \<in> {t. \<exists>w. x # s = w @ t \<and> list_all p w}"
    then obtain w where w: "x # s = w @ t" "list_all p w" by auto
    show "t \<in> set (star_rests p (x # s))"
    proof (cases w)
      case Nil
      with w have "t = x # s" by simp
      then show ?thesis by simp
    next
      case (Cons y w')
      with w have "p x" "s = w' @ t" "list_all p w'" by auto
      with Cons.IH show ?thesis by auto
    qed
  qed
qed

lemma plus_rests_set:
  "set (plus_rests p s) = {t. \<exists>w. s = w @ t \<and> w \<noteq> [] \<and> list_all p w}"
proof (cases s)
  case Nil
  then show ?thesis by (auto simp: plus_rests_def)
next
  case (Cons x s')
  show ?thesis
  proof (intro set_eqI iffI)
    fix t assume "t \<in> set (plus_rests p s)"
    with Cons have "p x" "t \<in> set (star_rests p s')"
      by (auto simp: plus_rests_def split: if_splits)
    then obtain w where "s' = w @ t" "list_all p w" by (auto simp: star_rests_set)
    with Cons \<open>p x\<close> show "t \<in> {t. \<exists>w. s = w @ t \<and> w \<noteq> [] \<and> list_all p w}"
      by (auto intro: exI[of _ "x # w"])
  next
    fix t assume "t \<in> {t. \<exists>w. s = w @ t \<and> w \<noteq> [] \<and> list_all p w}"
    then obtain w where w: "s = w @ t" "w \<noteq> []" "list_all p w" by auto
    then obtain y w' where "w = y # w'" by (cases w) auto
    with w Cons have "p x" "s' = w' @ t" "list_all p w'" by auto
    then have "t \<in> set (star_rests p s')" by (auto simp: star_rests_set)
    with Cons \<open>p x\<close> show "t \<in> set (plus_rests p s)" by (simp add: plus_rests_def)
  qed
qed

lemma run_lang: "snd ` set (run r (c, s)) = {t. \<exists>w\<in>lang r. s = w @ t}"
proof (induction r arbitrary: c s)
  case (Lit l)
  show ?case
  proof (intro set_eqI iffI)
    fix t assume "t \<in> snd ` set (run (Lit l) (c, s))"
    then have "lit_rest l s = Some t"
      by (cases "lit_rest l s") auto
    then have "s = l @ t" by (simp only: lit_rest_iff)
    then show "t \<in> {t. \<exists>w\<in>lang (Lit l). s = w @ t}" by simp
  next
    fix t assume "t \<in> {t. \<exists>w\<in>lang (Lit l). s = w @ t}"
    then have "s = l @ t" by simp
    then have "lit_rest l s = Some t" by (simp only: lit_rest_iff)
    then show "t \<in> snd ` set (run (Lit l) (c, s))" by simp
  qed
next
  case (Cls p)
  show ?case by (auto split: list.splits if_splits)
next
  case (Seq a b)
  show ?case
  proof (intro set_eqI iffI)
    fix t assume "t \<in> snd ` set (run (Seq a b) (c, s))"
    then obtain c1 t1 c2 where m: "(c1, t1) \<in> set (run a (c, s))" "(c2, t) \<in> set (run b (c1, t1))"
      by auto
    from m(1) have "t1 \<in> snd ` set (run a (c, s))" by force
    with Seq.IH(1) obtain u where u: "u \<in> lang a" "s = u @ t1" by auto
    from m(2) have "t \<in> snd ` set (run b (c1, t1))" by force
    with Seq.IH(2) obtain v where v: "v \<in> lang b" "t1 = v @ t" by auto
    from u v have "u @ v \<in> lang (Seq a b)" "s = (u @ v) @ t" by auto
    then show "t \<in> {t. \<exists>w\<in>lang (Seq a b). s = w @ t}" by blast
  next
    fix t assume "t \<in> {t. \<exists>w\<in>lang (Seq a b). s = w @ t}"
    then obtain u v where uv: "u \<in> lang a" "v \<in> lang b" "s = (u @ v) @ t" by auto
    then have "v @ t \<in> {t. \<exists>w\<in>lang a. s = w @ t}" by auto
    then have "v @ t \<in> snd ` set (run a (c, s))" by (simp only: Seq.IH(1))
    then obtain c1 where c1: "(c1, v @ t) \<in> set (run a (c, s))" by force
    from uv have "t \<in> {t'. \<exists>w\<in>lang b. v @ t = w @ t'}" by auto
    then have "t \<in> snd ` set (run b (c1, v @ t))" by (simp only: Seq.IH(2))
    then obtain c2 where "(c2, t) \<in> set (run b (c1, v @ t))" by force
    with c1 have "(c2, t) \<in> set (run (Seq a b) (c, s))" by auto
    then show "t \<in> snd ` set (run (Seq a b) (c, s))" by force
  qed
next
  case (Alt a b)
  then show ?case by (auto simp: image_Un)
next
  case (Opt a)
  have "snd ` set (run (Opt a) (c, s)) = insert s (snd ` set (run a (c, s)))" by simp
  also have "\<dots> = insert s {t. \<exists>w\<in>lang a. s = w @ t}" by (simp only: Opt.IH)
  also have "\<dots> = {t. \<exists>w\<in>lang (Opt a). s = w @ t}" by auto
  finally show ?case .
next
  case (Star p)
  show ?case by (auto simp: star_rests_set image_image)
next
  case (Plus p)
  show ?case by (auto simp: plus_rests_set image_image)
next
  case (Rep n p)
  show ?case
  proof (intro set_eqI iffI)
    fix t assume "t \<in> snd ` set (run (Rep n p) (c, s))"
    then have "n \<le> length s" "list_all p (take n s)" "t = drop n s"
      by (auto split: if_splits)
    then have "take n s \<in> lang (Rep n p)" "s = take n s @ t" by auto
    then show "t \<in> {t. \<exists>w\<in>lang (Rep n p). s = w @ t}" by blast
  next
    fix t assume "t \<in> {t. \<exists>w\<in>lang (Rep n p). s = w @ t}"
    then obtain w where "length w = n" "list_all p w" "s = w @ t" by auto
    then show "t \<in> snd ` set (run (Rep n p) (c, s))" by auto
  qed
next
  case (Cap a)
  have "snd ` set (run (Cap a) (c, s)) = snd ` set (run a (c, s))"
    by (force simp: image_iff)
  with Cap show ?case by simp
qed

lemma run_empty_iff: "run r (c, s) = [] \<longleftrightarrow> \<not> (\<exists>w t. s = w @ t \<and> w \<in> lang r)"
proof -
  have "run r (c, s) = [] \<longleftrightarrow> snd ` set (run r (c, s)) = {}" by simp
  also have "\<dots> \<longleftrightarrow> \<not> (\<exists>w t. s = w @ t \<and> w \<in> lang r)"
    unfolding run_lang by auto
  finally show ?thesis .
qed

lemma exec_from_None_lang:
  "exec_from r u = None \<longleftrightarrow> \<not> (\<exists>pre w t. u = pre @ w @ t \<and> w \<in> lang r)"
proof
  assume n: "exec_from r u = None"
  show "\<not> (\<exists>pre w t. u = pre @ w @ t \<and> w \<in> lang r)"
  proof
    assume "\<exists>pre w t. u = pre @ w @ t \<and> w \<in> lang r"
    then obtain pre w t where h: "u = pre @ w @ t" "w \<in> lang r" by blast
    from n have all: "\<forall>k\<le>length u. run r (None, drop k u) = []"
      by (simp only: exec_from_None)
    have "length pre \<le> length u" using h(1) by simp
    with all have "run r (None, drop (length pre) u) = []" by blast
    moreover have "drop (length pre) u = w @ t" using h(1) by simp
    ultimately have "run r (None, w @ t) = []" by simp
    with h(2) show False by (auto simp: run_empty_iff)
  qed
next
  assume a: "\<not> (\<exists>pre w t. u = pre @ w @ t \<and> w \<in> lang r)"
  have "\<forall>k\<le>length u. run r (None, drop k u) = []"
  proof (intro allI impI)
    fix k assume "k \<le> length u"
    show "run r (None, drop k u) = []"
    proof (rule ccontr)
      assume "run r (None, drop k u) \<noteq> []"
      then obtain w t where "drop k u = w @ t" "w \<in> lang r"
        by (auto simp: run_empty_iff)
      then have "u = take k u @ w @ t \<and> w \<in> lang r"
        by (metis append_take_drop_id)
      with a show False by blast
    qed
  qed
  then show "exec_from r u = None" by (simp add: exec_from_None)
qed

lemma lang_two_segments:
  "x \<in> lang (Seq (Plus not_slash) (Seq (Lit ''/'') (Seq (Plus dot) (Lit ''/'')))) \<longleftrightarrow>
     (\<exists>a b. x = a @ ''/'' @ b @ ''/'' \<and> a \<noteq> [] \<and> list_all not_slash a
            \<and> b \<noteq> [] \<and> list_all dot b)"
  by auto

lemma lang_v_e_embed:
  "x \<in> lang (Seq (Alt (Lit ''v'') (Seq (Lit ''e'') (Opt (Lit ''mbed'')))) (Lit ''/'')) \<longleftrightarrow>
     x = ''v/'' \<or> x = ''e/'' \<or> x = ''embed/''"
  by auto

lemma lang_SeqI: "u \<in> lang a \<Longrightarrow> v \<in> lang b \<Longrightarrow> u @ v \<in> lang (Seq a b)"
  by auto

lemma lang_query_v:
  "x \<in> lang (Seq (Star dot) (Seq (Cls qmark_or_amp) (Lit ''v=''))) \<longleftrightarrow>
     (\<exists>a q. x = a @ [q] @ ''v='' \<and> list_all dot a \<and> qmark_or_amp q)"
proof
  assume "x \<in> lang (Seq (Star dot) (Seq (Cls qmark_or_amp) (Lit ''v='')))"
  then show "\<exists>a q. x = a @ [q] @ ''v='' \<and> list_all dot a \<and> qmark_or_amp q"
    by auto
next
  assume "\<exists>a q. x = a @ [q] @ ''v='' \<and> list_all dot a \<and> qmark_or_amp q"
  then obtain a q where h: "x = a @ [q] @ ''v=''" "list_all dot a" "qmark_or_amp q" by blast
  have "[q] @ ''v='' \<in> lang (Seq (Cls qmark_or_amp) (Lit ''v=''))"
    using h(3) by (intro lang_SeqI) simp_all
  moreover have "a \<in> lang (Star dot)" using h(2) by simp
  ultimately have "a @ [q] @ ''v='' \<in> lang (Seq (Star dot) (Seq (Cls qmark_or_amp) (Lit ''v='')))"
    by (rule lang_SeqI[rotated])
  with h(1) show "x \<in> lang (Seq (Star dot) (Seq (Cls qmark_or_amp) (Lit ''v='')))" by simp
qed

lemma lang_shape:
  "w \<in> lang (Alt (Seq (Lit l1) (Alt a1 (Alt a2 a3))) (Lit l2)) \<longleftrightarrow>
     w = l2 \<or> (\<exists>x. w = l1 @ x \<and> (x \<in> lang a1 \<or> x \<in> lang a2 \<or> x \<in> lang a3))"
  by auto

lemma lang_id_prefix: "w \<in> lang id_prefix_rx \<longleftrightarrow> code_shape w"
  unfolding id_prefix_rx_def code_shape_def
  by (simp only: lang_shape lang_two_segments lang_v_e_embed lang_query_v)

lemma lang_video_id:
  "w \<in> lang video_id_rx \<longleftrightarrow>
     (\<exists>s i. w = s @ i \<and> code_shape s \<and> length i = 11 \<and> list_all id_cls i)"
  unfolding video_id_rx_def by (auto simp: lang_id_prefix)

lemma exec_video_id_captures:
  "exec_from video_id_rx url = Some c \<Longrightarrow> \<exists>v. c = Some v"
proof -
  assume "exec_from video_id_rx url = Some c"
  from exec_from_Some[OF this] obtain s t more where
    "run video_id_rx (None, s) = (c, t) # more" by blast
  then have "(c, t) \<in> set (run video_id_rx (None, s))" by simp
  from run_video_id_rx[OF this] show ?thesis by blast
qed

lemma extractVideoId_None_iff:
  "extractVideoId url = None \<longleftrightarrow>
     \<not> (\<exists>p s i q. url = p @ s @ i @ q \<and> code_shape s \<and> length i = 11 \<and> list_all id_cls i)"
proof -
  have "extractVideoId url = None \<longleftrightarrow> exec_from video_id_rx url = None"
    using exec_video_id_captures[of url]
    by (auto simp: extractVideoId_def split: option.splits)
  also have "\<dots> \<longleftrightarrow> \<not> (\<exists>pre w t. url = pre @ w @ t \<and> w \<in> lang video_id_rx)"
    by (rule exec_from_None_lang)
  also have "\<dots> \<longleftrightarrow>
      \<not> (\<exists>p s i q. url = p @ s @ i @ q \<and> code_shape s \<and> length i = 11 \<and> list_all id_cls i)"
    by (simp only: lang_video_id) (metis append.assoc)
  finally show ?thesis .
qed

lemma skip_prefix:
  "CHR ''y'' \<notin> set pre \<Longrightarrow> exec_from video_id_rx (pre @ s) = exec_from video_id_rx s"
proof (induction pre)
  case Nil
  then show ?case by simp
next
  case (Cons x pre)
  then have "x \<noteq> CHR ''y''" by auto
  then have "run video_id_rx (None, x # pre @ s) = []"
    by (simp add: video_id_rx_flat id_prefix_rx_def run_atoms del: run.simps(3))
  with Cons show ?case by simp
qed

lemma extract_at_core:
  assumes "CHR ''y'' \<notin> set pre" "run video_id_rx (None, x # t) = [(Some v, post)]"
  shows "extractVideoId (pre @ x # t) = Some v"
  using assms by (simp add: extractVideoId_def skip_prefix)

lemma list_all_spec_id: "list_all spec_id_char v \<Longrightarrow> list_all id_cls v"
  by (auto simp: list_all_iff spec_id_char_id_cls)

text \<open>
  C5, as the code has it. For every identifier of 11 characters of \<open>[A-Za-z0-9_-]\<close>,
  the watch-page form \<open>youtube.com/watch?v=ID\<close>, the short form \<open>youtu.be/ID\<close>, the
  embed form \<open>youtube.com/embed/ID\<close> and the path form \<open>youtube.com/v/ID\<close> all give
  that identifier, behind any text without the letter \<open>y\<close> (such as
  \<open>https://www.\<close>) and in front of any text without \<open>/\<close> and without \<open>v=\<close>
  (such as \<open>&t=10s\<close>). The result is \<open>null\<close> exactly for the strings in which the
  pattern does not occur: no part of the string is one of the shapes of the pattern
  followed by 11 characters other than a double quote, \<open>&\<close>, \<open>?\<close>, \<open>/\<close> and white
  space. The function is total: it returns, and raises nothing, on every string.
\<close>

theorem extractVideoId_shapes:
  "(length v = 11 \<and> list_all spec_id_char v \<and> CHR ''y'' \<notin> set pre
      \<and> CHR ''/'' \<notin> set post \<and> \<not> js_includes ''v='' post \<longrightarrow>
      extractVideoId (pre @ ''youtube.com/watch?v='' @ v @ post) = Some v
      \<and> extractVideoId (pre @ ''youtu.be/'' @ v @ post) = Some v
      \<and> extractVideoId (pre @ ''youtube.com/embed/'' @ v @ post) = Some v
      \<and> extractVideoId (pre @ ''youtube.com/v/'' @ v @ post) = Some v)
   \<and> (extractVideoId url = None \<longleftrightarrow>
        \<not> (\<exists>p s i q. url = p @ s @ i @ q \<and> code_shape s \<and> length i = 11
               \<and> list_all id_cls i))"
proof (intro conjI impI)
  assume a: "length v = 11 \<and> list_all spec_id_char v \<and> CHR ''y'' \<notin> set pre
      \<and> CHR ''/'' \<notin> set post \<and> \<not> js_includes ''v='' post"
  then have l: "length v = 11" and i: "list_all id_cls v" and p: "CHR ''y'' \<notin> set pre"
    and q: "CHR ''/'' \<notin> set post" "\<not> js_includes ''v='' post"
    by (simp_all add: list_all_spec_id)
  from run_watch[OF l i q] show "extractVideoId (pre @ ''youtube.com/watch?v='' @ v @ post) = Some v"
    using extract_at_core[OF p] by simp
  from run_short[OF l i, of post] show "extractVideoId (pre @ ''youtu.be/'' @ v @ post) = Some v"
    using extract_at_core[OF p] by simp
  from run_embed[OF l i q] show "extractVideoId (pre @ ''youtube.com/embed/'' @ v @ post) = Some v"
    using extract_at_core[OF p] by simp
  from run_vpath[OF l i q] show "extractVideoId (pre @ ''youtube.com/v/'' @ v @ post) = Some v"
    using extract_at_core[OF p] by simp
next
  show "extractVideoId url = None \<longleftrightarrow>
        \<not> (\<exists>p s i q. url = p @ s @ i @ q \<and> code_shape s \<and> length i = 11
               \<and> list_all id_cls i)"
    by (rule extractVideoId_None_iff)
qed

theorem extractVideoId_shapes_witness:
  "length ''dQw4w9WgXcQ'' = 11 \<and> list_all spec_id_char ''dQw4w9WgXcQ''
   \<and> CHR ''y'' \<notin> set ''https://www.'' \<and> CHR ''/'' \<notin> set ''&t=10s''
   \<and> \<not> js_includes ''v='' ''&t=10s''
   \<and> extractVideoId (''https://www.'' @ ''youtube.com/watch?v='' @ ''dQw4w9WgXcQ'' @ ''&t=10s'')
        = Some ''dQw4w9WgXcQ''
   \<and> extractVideoId (''https://www.'' @ ''youtu.be/'' @ ''dQw4w9WgXcQ'' @ ''&t=10s'')
        = Some ''dQw4w9WgXcQ''
   \<and> extractVideoId (''https://www.'' @ ''youtube.com/embed/'' @ ''dQw4w9WgXcQ'' @ ''&t=10s'')
        = Some ''dQw4w9WgXcQ''
   \<and> extractVideoId (''https://www.'' @ ''youtube.com/v/'' @ ''dQw4w9WgXcQ'' @ ''&t=10s'')
        = Some ''dQw4w9WgXcQ''
   \<and> extractVideoId ''https://example.org/'' = None
   \<and> \<not> (\<exists>p s i q. ''https://example.org/'' = p @ s @ i @ q \<and> code_shape s \<and> length i = 11
            \<and> list_all id_cls i)"
proof -
  have h: "length ''dQw4w9WgXcQ'' = 11 \<and> list_all spec_id_char ''dQw4w9WgXcQ''
      \<and> CHR ''y'' \<notin> set ''https://www.'' \<and> CHR ''/'' \<notin> set ''&t=10s''
      \<and> \<not> js_includes ''v='' ''&t=10s''"
    by (simp add: spec_id_char_def starts_with_def)
  have n: "extractVideoId ''https://example.org/'' = None"
    by code_simp
  note T = extractVideoId_shapes[of "''dQw4w9WgXcQ''" "''https://www.''" "''&t=10s''"
      "''https://example.org/''"]
  note e1 = T[THEN conjunct1, THEN mp, OF h]
  note e2 = T[THEN conjunct2, THEN iffD1, OF n]
  show ?thesis
    by (intro conjI h[THEN conjunct1] h[THEN conjunct2, THEN conjunct1]
        h[THEN conjunct2, THEN conjunct2, THEN conjunct1]
        h[THEN conjunct2, THEN conjunct2, THEN conjunct2, THEN conjunct1]
        h[THEN conjunct2, THEN conjunct2, THEN conjunct2, THEN conjunct2]
        e1[THEN conjunct1] e1[THEN conjunct2, THEN conjunct1]
        e1[THEN conjunct2, THEN conjunct2, THEN conjunct1]
        e1[THEN conjunct2, THEN conjunct2, THEN conjunct2] n e2)
qed

text \<open>
  The claim as stated fails in its second half: a link with two path segments in front
  of the identifier, and a link of the form \<open>youtube.com/e/ID\<close>, have none of the
  shapes the specification names, and an identifier is returned for them, not \<open>null\<close>.
\<close>

theorem extractVideoId_other_shape_counterexample:
  "extractVideoId ''https://www.youtube.com/channel/videos/dQw4w9WgXcQ'' = Some ''dQw4w9WgXcQ''
   \<and> \<not> spec_shape_url ''https://www.youtube.com/channel/videos/dQw4w9WgXcQ''
   \<and> extractVideoId ''https://www.youtube.com/e/dQw4w9WgXcQ'' = Some ''dQw4w9WgXcQ''
   \<and> \<not> spec_shape_url ''https://www.youtube.com/e/dQw4w9WgXcQ''"
proof -
  have "extractVideoId ''https://www.youtube.com/channel/videos/dQw4w9WgXcQ''
      = Some ''dQw4w9WgXcQ''"
    by code_simp
  moreover have "\<not> spec_shape_url ''https://www.youtube.com/channel/videos/dQw4w9WgXcQ''"
    by code_simp
  moreover have "extractVideoId ''https://www.youtube.com/e/dQw4w9WgXcQ'' = Some ''dQw4w9WgXcQ''"
    by code_simp
  moreover have "\<not> spec_shape_url ''https://www.youtube.com/e/dQw4w9WgXcQ''"
    by code_simp
  ultimately show ?thesis by blast
qed

end
